theory Spec2Isabelle
  imports
    Complex_Main
    "HOL-Library.Word"
    "HOL-Library.Char_ord"
    "HOL-Library.List_Lexorder"
    "HOL-Library.Product_Lexorder"
    "HOL-Library.Multiset"
begin

section \<open>The chunked model cache (ModelCache, IndexedDB schema version 2)\<close>

text \<open>
  The class \<^verbatim>\<open>ModelCache\<close> stores model weights in two IndexedDB object stores:
  \<^verbatim>\<open>modelMetadata\<close> (key path \<^verbatim>\<open>modelId\<close>) and \<^verbatim>\<open>modelChunks\<close> (key path
  \<^verbatim>\<open>[modelId, chunkIndex]\<close>). The embedding is sequential: every asynchronous method
  becomes a function from the instance (which carries the database contents) to the
  outcome of the returned promise and the instance afterwards.

  Byte counts, chunk indices and timestamps are JavaScript numbers in the source. They
  are natural numbers here; fractional, negative and NaN values are not represented.
  \<^verbatim>\<open>Date.now()\<close> is a parameter \<open>now\<close> of the methods that read the clock. Every
  IndexedDB request that has an \<^verbatim>\<open>onerror\<close> handler in the source can fail in the
  model: the failures are chosen by a record of flags passed to the method.
\<close>

subsection \<open>Constants and records\<close>

definition DEFAULT_CHUNK_SIZE_BYTES :: nat where
  "DEFAULT_CHUNK_SIZE_BYTES = 16 * 1024 * 1024"

definition DEFAULT_MAX_CACHE_SIZE_BYTES :: nat where
  "DEFAULT_MAX_CACHE_SIZE_BYTES = 512 * 1024 * 1024"

text \<open>\<^verbatim>\<open>Number.MAX_SAFE_INTEGER\<close>, the upper end of the chunk key ranges.\<close>

definition MAX_SAFE_INTEGER :: nat where
  "MAX_SAFE_INTEGER = 2 ^ 53 - 1"

type_synonym ArrayBuffer = "8 word list"

record ModelMetadata =
  modelId :: string
  totalSize :: nat
  chunkCount :: nat
  chunkSize :: nat
  createdAt :: nat
  lastAccessed :: nat
  fileName :: "string option"
  contentType :: "string option"

text \<open>
  The fields of \<^verbatim>\<open>ModelChunk\<close>; its \<^verbatim>\<open>modelId\<close> is named \<open>chunk_modelId\<close>, since a
  record field name can be declared once only.
\<close>

record ModelChunk =
  chunk_modelId :: string
  chunkIndex :: nat
  data :: ArrayBuffer

text \<open>The contents of the opened database: the records of its two object stores.\<close>

record IDBDatabase =
  modelMetadata :: "ModelMetadata list"
  modelChunks :: "ModelChunk list"

datatype error =
  CachingDisabled   \<comment> \<open>the Error thrown by getDb: "IndexedDB is not available or failed to initialize. Caching is disabled."\<close>
  | OpenError       \<comment> \<open>request.error of the failed indexedDB.open\<close>
  | RequestError    \<comment> \<open>the error of a failed request or of its aborted transaction\<close>

text \<open>
  The outcome of a returned promise. \<open>Pending\<close> is a promise that is never settled:
  neither \<^verbatim>\<open>resolve\<close> nor \<^verbatim>\<open>reject\<close> is ever called.
\<close>

datatype 'a promise = Fulfilled 'a | Rejected error | Pending

datatype init_result = InitResolved | InitRejected

text \<open>
  The instance: \<^verbatim>\<open>this.db\<close> (null is \<open>None\<close>), the outcome of \<^verbatim>\<open>this.dbReadyPromise\<close>,
  and the two readonly configuration fields \<^verbatim>\<open>this.chunkSize\<close> and
  \<^verbatim>\<open>this.maxCacheSize\<close>.
\<close>

record ModelCache =
  db :: "IDBDatabase option"
  dbReadyPromise :: init_result
  this_chunkSize :: nat
  this_maxCacheSize :: nat

subsection \<open>Object stores\<close>

text \<open>
  An object store holds at most one record per key; \<^verbatim>\<open>put\<close> replaces the record with
  the same key. \<^verbatim>\<open>getAll\<close> returns the records whose key lies in the queried range in
  ascending key order, whatever the order they were written in; \<^verbatim>\<open>delete\<close> through a
  cursor over a range removes every record of the range. A store is the list of its
  records; the key of a record is computed from the record, as with a key path. String
  keys are ordered lexicographically and array keys component by component, as
  IndexedDB orders them.
\<close>

definition store_get :: "('v \<Rightarrow> 'k) \<Rightarrow> 'k \<Rightarrow> 'v list \<Rightarrow> 'v option" where
  "store_get key k s = find (\<lambda>v. key v = k) s"

definition store_put :: "('v \<Rightarrow> 'k) \<Rightarrow> 'v \<Rightarrow> 'v list \<Rightarrow> 'v list" where
  "store_put key v s = v # filter (\<lambda>x. key x \<noteq> key v) s"

definition store_getAll :: "('v \<Rightarrow> 'k::linorder) \<Rightarrow> ('k \<Rightarrow> bool) \<Rightarrow> 'v list \<Rightarrow> 'v list" where
  "store_getAll key keyRange s = sort_key key (filter (\<lambda>v. keyRange (key v)) s)"

definition store_delete :: "('v \<Rightarrow> 'k) \<Rightarrow> ('k \<Rightarrow> bool) \<Rightarrow> 'v list \<Rightarrow> 'v list" where
  "store_delete key keyRange s = filter (\<lambda>v. \<not> keyRange (key v)) s"

definition chunk_key :: "ModelChunk \<Rightarrow> string \<times> nat" where
  "chunk_key chunk = (chunk_modelId chunk, chunkIndex chunk)"

text \<open>
  \<^verbatim>\<open>IDBKeyRange.bound([modelId, 0], [modelId, Number.MAX_SAFE_INTEGER])\<close>: array keys
  are compared component by component.
\<close>

definition chunkRange :: "string \<Rightarrow> string \<times> nat \<Rightarrow> bool" where
  "chunkRange mid k \<longleftrightarrow> (mid, 0) \<le> k \<and> k \<le> (mid, MAX_SAFE_INTEGER)"

subsection \<open>Construction and initialisation\<close>

text \<open>
  What \<^verbatim>\<open>initDatabase\<close> finds: no \<^verbatim>\<open>indexedDB\<close> global, an open request that fails,
  or an open request that succeeds on a database with the given contents (after the
  schema upgrade, if one was needed).
\<close>

datatype 'd indexedDB = Undefined | OpenFails | Opens 'd

text \<open>\<^verbatim>\<open>x || d\<close> on an optional number: undefined and 0 are falsy.\<close>

fun or_default :: "nat option \<Rightarrow> nat \<Rightarrow> nat" where
  "or_default None d = d"
| "or_default (Some n) d = (if n = 0 then d else n)"

definition initDatabase :: "IDBDatabase indexedDB \<Rightarrow> IDBDatabase option \<times> init_result" where
  "initDatabase env =
     (case env of
        Undefined \<Rightarrow> (None, InitResolved)
      | OpenFails \<Rightarrow> (None, InitRejected)
      | Opens d \<Rightarrow> (Some d, InitResolved))"

definition ModelCache_new :: "nat option \<Rightarrow> nat option \<Rightarrow> IDBDatabase indexedDB \<Rightarrow> ModelCache" where
  "ModelCache_new chunkSizeInBytes maxCacheSizeInBytes env =
     \<lparr> db = fst (initDatabase env),
       dbReadyPromise = snd (initDatabase env),
       this_chunkSize = or_default chunkSizeInBytes DEFAULT_CHUNK_SIZE_BYTES,
       this_maxCacheSize = or_default maxCacheSizeInBytes DEFAULT_MAX_CACHE_SIZE_BYTES \<rparr>"

text \<open>
  \<^verbatim>\<open>getDb\<close> awaits \<^verbatim>\<open>dbReadyPromise\<close> (a rejection is rethrown by the await) and
  throws when \<^verbatim>\<open>this.db\<close> is null.
\<close>

definition getDb :: "ModelCache \<Rightarrow> error + IDBDatabase" where
  "getDb self =
     (case dbReadyPromise self of
        InitRejected \<Rightarrow> Inl OpenError
      | InitResolved \<Rightarrow>
          (case db self of None \<Rightarrow> Inl CachingDisabled | Some d \<Rightarrow> Inr d))"

subsection \<open>deleteModel\<close>

text \<open>
  One readwrite transaction over both stores deletes the metadata record and, through
  a cursor, every chunk of the key range. No error handler calls
  \<^verbatim>\<open>preventDefault\<close>, so a failing request aborts the transaction: nothing is
  deleted and the promise is rejected from \<^verbatim>\<open>transaction.onerror\<close>.
\<close>

definition deleteModel :: "string \<Rightarrow> bool \<Rightarrow> IDBDatabase \<Rightarrow> error + IDBDatabase" where
  "deleteModel mid fails d =
     (if fails then Inl RequestError
      else Inr (d\<lparr> modelMetadata := store_delete modelId (\<lambda>k. k = mid) (modelMetadata d),
                   modelChunks := store_delete chunk_key (chunkRange mid) (modelChunks d) \<rparr>))"

subsection \<open>evictModelsIfNeeded\<close>

text \<open>
  The sweep over the metadata sorted by \<^verbatim>\<open>lastAccessed\<close>: it stops as soon as the
  running size is within the budget; a model whose delete is rejected is skipped and
  the running size is left as it is.
\<close>

fun evict_loop :: "nat \<Rightarrow> (string \<Rightarrow> bool) \<Rightarrow> int \<Rightarrow> ModelMetadata list \<Rightarrow> IDBDatabase \<Rightarrow> IDBDatabase" where
  "evict_loop maxSize fails currentCacheSize [] d = d"
| "evict_loop maxSize fails currentCacheSize (meta # metas) d =
     (if currentCacheSize \<le> int maxSize then d
      else (case deleteModel (modelId meta) (fails (modelId meta)) d of
              Inr d' \<Rightarrow> evict_loop maxSize fails (currentCacheSize - int (totalSize meta)) metas d'
            | Inl e \<Rightarrow> evict_loop maxSize fails currentCacheSize metas d))"

text \<open>
  \<open>scan_fails\<close>: the \<^verbatim>\<open>getAll\<close> request on the metadata store fails and the promise is
  rejected. \<^verbatim>\<open>Array.prototype.sort\<close> is stable, as \<open>sort_key\<close> is.
\<close>

definition evictModelsIfNeeded ::
  "ModelCache \<Rightarrow> bool \<Rightarrow> (string \<Rightarrow> bool) \<Rightarrow> IDBDatabase \<Rightarrow> error + IDBDatabase" where
  "evictModelsIfNeeded self scan_fails fails d =
     (if scan_fails then Inl RequestError
      else
        let allMetadata = store_getAll modelId (\<lambda>k. True) (modelMetadata d);
            currentCacheSize = (\<Sum>meta\<leftarrow>allMetadata. int (totalSize meta))
        in if currentCacheSize \<le> int (this_maxCacheSize self) then Inr d
           else if length allMetadata = 1 \<and> currentCacheSize > int (this_maxCacheSize self) then Inr d
           else Inr (evict_loop (this_maxCacheSize self) fails currentCacheSize
                       (sort_key lastAccessed allMetadata) d))"

subsection \<open>cacheModel\<close>

text \<open>\<^verbatim>\<open>Math.ceil(a / b)\<close> for a positive divisor.\<close>

definition ceil_div :: "nat \<Rightarrow> nat \<Rightarrow> nat" where
  "ceil_div a b = (a + b - 1) div b"

text \<open>\<^verbatim>\<open>ArrayBuffer.prototype.slice(start, end)\<close> on non-negative bounds, which it clamps.\<close>

definition slice :: "ArrayBuffer \<Rightarrow> nat \<Rightarrow> nat \<Rightarrow> ArrayBuffer" where
  "slice buf start end' = take (end' - start) (drop start buf)"

text \<open>The body of the chunking loop for index \<open>i\<close>.\<close>

definition make_chunk :: "string \<Rightarrow> ArrayBuffer \<Rightarrow> nat \<Rightarrow> nat \<Rightarrow> ModelChunk" where
  "make_chunk mid modelData csize i =
     (let start = i * csize;
          end' = min (start + csize) (length modelData)
      in \<lparr> chunk_modelId = mid, chunkIndex = i, data = slice modelData start end' \<rparr>)"

definition make_metadata ::
  "string \<Rightarrow> ArrayBuffer \<Rightarrow> nat \<Rightarrow> string option \<Rightarrow> string option \<Rightarrow> nat \<Rightarrow> ModelMetadata" where
  "make_metadata mid modelData csize modelFileName modelContentType now =
     \<lparr> modelId = mid,
       totalSize = length modelData,
       chunkCount = ceil_div (length modelData) csize,
       chunkSize = csize,
       createdAt = now,
       lastAccessed = now,
       fileName = modelFileName,
       contentType = modelContentType \<rparr>"

text \<open>
  The failures the environment may choose during one \<^verbatim>\<open>cacheModel\<close>: the initial
  \<^verbatim>\<open>deleteModel\<close>, the metadata put, the put of chunk \<open>i\<close>, the metadata scan of the
  eviction, and the delete of a model during the sweep.
\<close>

record put_faults =
  delete_fails :: bool
  metadata_put_fails :: bool
  chunk_put_fails :: "nat \<Rightarrow> bool"
  scan_fails :: bool
  evict_fails :: "string \<Rightarrow> bool"

definition no_put_faults :: put_faults where
  "no_put_faults = \<lparr> delete_fails = False, metadata_put_fails = False,
     chunk_put_fails = (\<lambda>i. False), scan_fails = False, evict_fails = (\<lambda>m. False) \<rparr>"

text \<open>
  The records a write transaction that commits leaves in the database: the metadata
  record and the chunks \<open>0, \<dots>, chunkCount - 1\<close>, put in this order.
\<close>

definition write_model ::
  "string \<Rightarrow> ArrayBuffer \<Rightarrow> nat \<Rightarrow> string option \<Rightarrow> string option \<Rightarrow> nat \<Rightarrow> IDBDatabase \<Rightarrow> IDBDatabase" where
  "write_model mid modelData csize modelFileName modelContentType now d =
     d\<lparr> modelMetadata :=
          store_put modelId (make_metadata mid modelData csize modelFileName modelContentType now)
            (modelMetadata d),
        modelChunks :=
          foldl (\<lambda>s chunk. store_put chunk_key chunk s) (modelChunks d)
            (map (make_chunk mid modelData csize) [0..<ceil_div (length modelData) csize]) \<rparr>"

text \<open>
  \<^verbatim>\<open>cacheModel\<close>. The initial \<^verbatim>\<open>deleteModel\<close> is a transaction of its own, committed
  before the write transaction is opened. A failing put aborts the write transaction
  (the handlers call \<^verbatim>\<open>transaction.abort()\<close>): its writes are undone and the promise
  is rejected. After the commit, \<^verbatim>\<open>transaction.oncomplete\<close> awaits the eviction and
  then resolves; when the eviction promise is rejected the await throws inside the
  handler and \<^verbatim>\<open>resolve\<close> is never reached.

  With \<open>this_chunkSize self = 0\<close>, which the constructor never stores, JavaScript
  computes \<^verbatim>\<open>Infinity\<close> chunks and the loop does not end (for an empty buffer it
  computes NaN, which this model does not represent): the model gives \<open>Pending\<close>.
\<close>

definition cacheModel ::
  "ModelCache \<Rightarrow> string \<Rightarrow> ArrayBuffer \<Rightarrow> string option \<Rightarrow> string option \<Rightarrow> nat \<Rightarrow> put_faults
     \<Rightarrow> unit promise \<times> ModelCache" where
  "cacheModel self mid modelData modelFileName modelContentType now f =
     (case getDb self of
        Inl e \<Rightarrow> (Rejected e, self)
      | Inr d \<Rightarrow>
          (case deleteModel mid (delete_fails f) d of
             Inl e \<Rightarrow> (Rejected e, self)
           | Inr d1 \<Rightarrow>
               if this_chunkSize self = 0 then (Pending, self\<lparr> db := Some d1 \<rparr>)
               else if metadata_put_fails f
                       \<or> list_ex (chunk_put_fails f)
                            [0..<ceil_div (length modelData) (this_chunkSize self)]
               then (Rejected RequestError, self\<lparr> db := Some d1 \<rparr>)
               else
                 let d2 = write_model mid modelData (this_chunkSize self)
                            modelFileName modelContentType now d1
                 in (case evictModelsIfNeeded self (scan_fails f) (evict_fails f) d2 of
                       Inl e \<Rightarrow> (Pending, self\<lparr> db := Some d2 \<rparr>)
                     | Inr d3 \<Rightarrow> (Fulfilled (), self\<lparr> db := Some d3 \<rparr>))))"

subsection \<open>getModelFromCache, isModelCached, clearCache\<close>

text \<open>
  The reassembly loop: \<^verbatim>\<open>reassembledView.set(chunk, offset)\<close> throws a RangeError
  when the chunk does not fit into the rest of the buffer (\<open>None\<close>).
\<close>

fun reassemble :: "ArrayBuffer \<Rightarrow> nat \<Rightarrow> ModelChunk list \<Rightarrow> ArrayBuffer option" where
  "reassemble view offset [] = Some view"
| "reassemble view offset (chunk # chunks) =
     (if offset + length (data chunk) > length view then None
      else reassemble (take offset view @ data chunk @ drop (offset + length (data chunk)) view)
             (offset + length (data chunk)) chunks)"

record get_faults =
  metadata_get_fails :: bool
  touch_fails :: bool
  chunks_get_fails :: bool
  cleanup_fails :: bool

definition no_get_faults :: get_faults where
  "no_get_faults = \<lparr> metadata_get_fails = False, touch_fails = False,
     chunks_get_fails = False, cleanup_fails = False \<rparr>"

text \<open>
  \<^verbatim>\<open>getModelFromCache\<close>. The put that refreshes \<^verbatim>\<open>lastAccessed\<close> may fail
  (\<open>touch_fails\<close>): its handler only warns, the metadata transaction is rolled back and
  the read goes on. On a chunk count mismatch \<^verbatim>\<open>deleteModel\<close> is started without
  being awaited and its rejection is caught and logged; its transaction is created
  before any transaction of a later call, so it is sequenced here. An exception thrown
  by the reassembly inside the success handler leaves the promise unsettled.
\<close>

definition getModelFromCache ::
  "ModelCache \<Rightarrow> string \<Rightarrow> nat \<Rightarrow> get_faults \<Rightarrow> ArrayBuffer option promise \<times> ModelCache" where
  "getModelFromCache self mid now f =
     (case getDb self of
        Inl e \<Rightarrow> (Rejected e, self)
      | Inr d \<Rightarrow>
          if metadata_get_fails f then (Rejected RequestError, self)
          else
            (case store_get modelId mid (modelMetadata d) of
               None \<Rightarrow> (Fulfilled None, self)
             | Some metadata \<Rightarrow>
                 let d1 = (if touch_fails f then d
                           else d\<lparr> modelMetadata :=
                                    store_put modelId (metadata\<lparr> lastAccessed := now \<rparr>)
                                      (modelMetadata d) \<rparr>)
                 in if chunks_get_fails f then (Rejected RequestError, self\<lparr> db := Some d1 \<rparr>)
                    else
                      let chunks = store_getAll chunk_key (chunkRange mid) (modelChunks d1)
                      in if length chunks \<noteq> chunkCount metadata
                         then (Fulfilled None,
                               self\<lparr> db := Some (case deleteModel mid (cleanup_fails f) d1 of
                                                   Inl e \<Rightarrow> d1 | Inr d2 \<Rightarrow> d2) \<rparr>)
                         else
                           (case reassemble (replicate (totalSize metadata) 0) 0
                                   (sort_key chunkIndex chunks) of
                              None \<Rightarrow> (Pending, self\<lparr> db := Some d1 \<rparr>)
                            | Some reassembledBuffer \<Rightarrow>
                                (Fulfilled (Some reassembledBuffer), self\<lparr> db := Some d1 \<rparr>))))"

definition isModelCached :: "ModelCache \<Rightarrow> string \<Rightarrow> bool \<Rightarrow> bool promise \<times> ModelCache" where
  "isModelCached self mid fails =
     (case getDb self of
        Inl e \<Rightarrow> (Rejected e, self)
      | Inr d \<Rightarrow>
          if fails then (Rejected RequestError, self)
          else (Fulfilled (store_get modelId mid (modelMetadata d) \<noteq> None), self))"

text \<open>
  \<^verbatim>\<open>clearCache\<close>: both stores are cleared in one transaction; a failing clear
  request aborts it and the promise is rejected from \<^verbatim>\<open>transaction.onerror\<close>.
\<close>

definition clearCache :: "ModelCache \<Rightarrow> bool \<Rightarrow> unit promise \<times> ModelCache" where
  "clearCache self fails =
     (case getDb self of
        Inl e \<Rightarrow> (Rejected e, self)
      | Inr d \<Rightarrow>
          if fails then (Rejected RequestError, self)
          else (Fulfilled (), self\<lparr> db := Some (d\<lparr> modelMetadata := [], modelChunks := [] \<rparr>) \<rparr>))"

section \<open>The legacy single-store cache (ts-wrapper/model-cache.ts, schema version 1)\<close>

text \<open>
  The earlier \<^verbatim>\<open>ModelCache\<close> keeps whole models in one object store \<^verbatim>\<open>models\<close>
  (key path \<^verbatim>\<open>modelId\<close>). Its constructor does not await \<^verbatim>\<open>initDatabase\<close>:
  \<^verbatim>\<open>this.db\<close> stays null unless the open request has succeeded, and every method
  tests it first. Its names carry the suffix \<open>V1\<close>.
\<close>

record ModelRecord =
  record_modelId :: string
  record_data :: ArrayBuffer
  timestamp :: nat

record ModelCacheV1 =
  v1_db :: "ModelRecord list option"

definition ModelCacheV1_new :: "(ModelRecord list) indexedDB \<Rightarrow> ModelCacheV1" where
  "ModelCacheV1_new env = \<lparr> v1_db = (case env of Opens s \<Rightarrow> Some s | _ \<Rightarrow> None) \<rparr>"

text \<open>
  \<open>fails\<close>: the request fails. The legacy read and write handlers resolve on error;
  an ArrayBuffer is truthy, so \<^verbatim>\<open>request.result && request.result.data\<close> is the
  stored buffer whenever a record is found.
\<close>

definition getModelFromCacheV1 :: "ModelCacheV1 \<Rightarrow> string \<Rightarrow> bool \<Rightarrow> ArrayBuffer option promise" where
  "getModelFromCacheV1 self mid fails =
     (case v1_db self of
        None \<Rightarrow> Fulfilled None
      | Some s \<Rightarrow>
          if fails then Fulfilled None
          else (case store_get record_modelId mid s of
                  None \<Rightarrow> Fulfilled None
                | Some r \<Rightarrow> Fulfilled (Some (record_data r))))"

definition cacheModelV1 ::
  "ModelCacheV1 \<Rightarrow> string \<Rightarrow> ArrayBuffer \<Rightarrow> nat \<Rightarrow> bool \<Rightarrow> unit promise \<times> ModelCacheV1" where
  "cacheModelV1 self mid modelData now fails =
     (case v1_db self of
        None \<Rightarrow> (Fulfilled (), self)
      | Some s \<Rightarrow>
          if fails then (Fulfilled (), self)
          else (Fulfilled (),
                self\<lparr> v1_db := Some (store_put record_modelId
                  \<lparr> record_modelId = mid, record_data = modelData, timestamp = now \<rparr> s) \<rparr>))"

definition isModelCachedV1 :: "ModelCacheV1 \<Rightarrow> string \<Rightarrow> bool \<Rightarrow> bool promise" where
  "isModelCachedV1 self mid fails =
     (case getModelFromCacheV1 self mid fails of
        Fulfilled cachedModel \<Rightarrow> Fulfilled (cachedModel \<noteq> None)
      | Rejected e \<Rightarrow> Rejected e
      | Pending \<Rightarrow> Pending)"

definition clearCacheV1 :: "ModelCacheV1 \<Rightarrow> bool \<Rightarrow> unit promise \<times> ModelCacheV1" where
  "clearCacheV1 self fails =
     (case v1_db self of
        None \<Rightarrow> (Fulfilled (), self)
      | Some s \<Rightarrow>
          if fails then (Rejected RequestError, self)
          else (Fulfilled (), self\<lparr> v1_db := Some [] \<rparr>))"

section \<open>Auxiliary notions for the statements\<close>

text \<open>
  What the code can observe of one model: its metadata record and the result of the
  chunk range query. \<open>remove_models\<close> is the database after the delete transactions of
  the listed models have committed; \<open>model_chunks\<close> is the list of chunk records the
  chunking loop builds.
\<close>

definition metadata_of :: "string \<Rightarrow> IDBDatabase \<Rightarrow> ModelMetadata option" where
  "metadata_of mid d = store_get modelId mid (modelMetadata d)"

definition chunks_of :: "string \<Rightarrow> IDBDatabase \<Rightarrow> ModelChunk list" where
  "chunks_of mid d = store_getAll chunk_key (chunkRange mid) (modelChunks d)"

definition remove_models :: "string list \<Rightarrow> IDBDatabase \<Rightarrow> IDBDatabase" where
  "remove_models ids d =
     d\<lparr> modelMetadata := filter (\<lambda>m. modelId m \<notin> set ids) (modelMetadata d),
        modelChunks := filter (\<lambda>c. \<not> (chunk_modelId c \<in> set ids \<and> chunkIndex c \<le> MAX_SAFE_INTEGER))
                         (modelChunks d) \<rparr>"

definition model_chunks :: "string \<Rightarrow> ArrayBuffer \<Rightarrow> nat \<Rightarrow> ModelChunk list" where
  "model_chunks mid modelData csize =
     map (make_chunk mid modelData csize) [0..<ceil_div (length modelData) csize]"

text \<open>A small instance for the concrete evaluations: chunks of 2 bytes, a budget of 4 bytes, an empty database.\<close>

definition demo_cache :: ModelCache where
  "demo_cache = ModelCache_new (Some 2) (Some 4) (Opens \<lparr> modelMetadata = [], modelChunks = [] \<rparr>)"

text \<open>
  The consistency of one model's records: no metadata and no chunk in the key range, or
  a metadata record whose chunks have exactly the indices \<open>0, \<dots>, chunkCount - 1\<close>.
\<close>

definition entry_consistent :: "string \<Rightarrow> IDBDatabase \<Rightarrow> bool" where
  "entry_consistent mid d =
     (case metadata_of mid d of
        None \<Rightarrow> chunks_of mid d = []
      | Some m \<Rightarrow> map chunkIndex (chunks_of mid d) = [0..<chunkCount m])"

text \<open>
  Further instances for the concrete evaluations: after storing A (3 bytes); after
  storing A and then B (2 bytes each, at times 1 and 2); a database in which the entry
  of A announces two chunks and has one; and three fault patterns.
\<close>

definition demo_cache_A :: ModelCache where
  "demo_cache_A = snd (cacheModel demo_cache ''A'' [1, 2, 3] None None 5 no_put_faults)"

definition demo_cache_AB :: ModelCache where
  "demo_cache_AB =
     snd (cacheModel (snd (cacheModel demo_cache ''A'' [1, 2] None None 1 no_put_faults))
            ''B'' [3, 4] None None 2 no_put_faults)"

definition corrupt_cache :: ModelCache where
  "corrupt_cache = ModelCache_new (Some 2) (Some 4) (Opens
     \<lparr> modelMetadata = [\<lparr> modelId = ''A'', totalSize = 3, chunkCount = 2, chunkSize = 2,
                          createdAt = 5, lastAccessed = 5, fileName = None, contentType = None \<rparr>],
       modelChunks = [\<lparr> chunk_modelId = ''A'', chunkIndex = 0, data = [1, 2] \<rparr>] \<rparr>)"

definition delete_of_A_fails :: put_faults where
  "delete_of_A_fails = no_put_faults\<lparr> evict_fails := (\<lambda>m. m = ''A'') \<rparr>"

definition first_chunk_put_fails :: put_faults where
  "first_chunk_put_fails = no_put_faults\<lparr> chunk_put_fails := (\<lambda>i. i = 0) \<rparr>"

definition eviction_scan_fails :: put_faults where
  "eviction_scan_fails = no_put_faults\<lparr> scan_fails := True \<rparr>"

section \<open>Lemmas\<close>

lemmas eval_defs =
  demo_cache_def ModelCache_new_def initDatabase_def getDb_def
  cacheModel_def deleteModel_def write_model_def make_metadata_def make_chunk_def slice_def
  ceil_div_def evictModelsIfNeeded_def getModelFromCache_def isModelCached_def clearCache_def
  store_get_def store_put_def store_getAll_def store_delete_def chunk_key_def chunkRange_def
  MAX_SAFE_INTEGER_def no_put_faults_def no_get_faults_def Let_def

subsection \<open>Object store lemmas\<close>

lemma chunkRange_key:
  "chunkRange mid (chunk_key c) \<longleftrightarrow> chunk_modelId c = mid \<and> chunkIndex c \<le> MAX_SAFE_INTEGER"
  by (auto simp: chunkRange_def chunk_key_def)

lemma find_filter_weaker:
  "(\<And>x. P x \<Longrightarrow> Q x) \<Longrightarrow> find P (filter Q xs) = find P xs"
  by (induction xs) auto

lemma find_filter_excluded:
  "(\<And>x. P x \<Longrightarrow> \<not> Q x) \<Longrightarrow> find P (filter Q xs) = None"
  by (induction xs) auto

lemma store_get_put_same: "store_get key (key v) (store_put key v s) = Some v"
  by (simp add: store_get_def store_put_def)

lemma store_get_put_other:
  "k \<noteq> key v \<Longrightarrow> store_get key k (store_put key v s) = store_get key k s"
  by (auto simp: store_get_def store_put_def intro: find_filter_weaker)

lemma filter_store_put_out:
  "\<not> P v \<Longrightarrow> (\<And>x. P x \<Longrightarrow> key x \<noteq> key v) \<Longrightarrow> filter P (store_put key v s) = filter P s"
  by (auto simp: store_put_def intro: filter_cong)

lemma filter_foldl_put_out:
  "(\<And>v x. v \<in> set vs \<Longrightarrow> P x \<Longrightarrow> key x \<noteq> key v) \<Longrightarrow> (\<And>v. v \<in> set vs \<Longrightarrow> \<not> P v)
    \<Longrightarrow> filter P (foldl (\<lambda>s v. store_put key v s) s vs) = filter P s"
proof (induction vs arbitrary: s)
  case Nil
  then show ?case by simp
next
  case (Cons v vs)
  have "filter P (foldl (\<lambda>s v. store_put key v s) (store_put key v s) vs) = filter P (store_put key v s)"
    using Cons.prems by (intro Cons.IH) auto
  also have "\<dots> = filter P s"
    using Cons.prems by (intro filter_store_put_out) auto
  finally show ?case by simp
qed

lemma filter_foldl_put_in:
  assumes "distinct (map key vs)" and "\<And>v. v \<in> set vs \<Longrightarrow> P v" and "filter P s = []"
  shows "filter P (foldl (\<lambda>s v. store_put key v s) s vs) = rev vs"
  using assms(1,2)
proof (induction vs rule: rev_induct)
  case Nil
  then show ?case using assms(3) by simp
next
  case (snoc v vs)
  have ih: "filter P (foldl (\<lambda>s v. store_put key v s) s vs) = rev vs"
    using snoc by auto
  have "filter (\<lambda>x. key x \<noteq> key v) (rev vs) = rev vs"
  proof -
    have "key v \<notin> key ` set vs" using snoc.prems(1) by simp
    then have "\<forall>x\<in>set (rev vs). key x \<noteq> key v" by (metis image_eqI set_rev)
    then show ?thesis by (simp only: filter_id_conv)
  qed
  moreover have "filter P (filter (\<lambda>x. key x \<noteq> key v) t) = filter (\<lambda>x. key x \<noteq> key v) (filter P t)" for t
    by (simp add: conj_commute)
  ultimately show ?case
    using snoc.prems(2) ih by (simp add: store_put_def del: filter_filter)
qed


subsection \<open>Chunking\<close>

lemma ceil_div_mult_ge: "0 < b \<Longrightarrow> a \<le> ceil_div a b * b"
proof -
  assume b: "0 < b"
  have "(a + b - 1) div b * b + (a + b - 1) mod b = a + b - 1" by simp
  moreover have "(a + b - 1) mod b < b" using b by simp
  ultimately show ?thesis unfolding ceil_div_def by linarith
qed

lemma ceil_div_index_lt: "0 < b \<Longrightarrow> i < ceil_div a b \<Longrightarrow> i * b < a"
proof -
  assume b: "0 < b" and i: "i < ceil_div a b"
  have "(a + b - 1) div b * b \<le> a + b - 1" by simp
  moreover have "(i + 1) * b \<le> (a + b - 1) div b * b"
    using i unfolding ceil_div_def by (intro mult_le_mono1) simp
  moreover have "(i + 1) * b = i * b + b" by simp
  ultimately have "i * b + b \<le> a + b - 1" by linarith
  then show ?thesis using b by linarith
qed

lemma ceil_div_le: "0 < b \<Longrightarrow> ceil_div a b \<le> a"
proof (cases "ceil_div a b")
  case 0
  then show ?thesis by simp
next
  case (Suc i)
  assume b: "0 < b"
  have "i * b < a" using Suc b by (intro ceil_div_index_lt) simp_all
  moreover have "i * 1 \<le> i * b" using b by (intro mult_le_mono2) simp
  then have "i \<le> i * b" by (simp only: mult_1_right)
  ultimately have "i < a" by linarith
  then show ?thesis using Suc by simp
qed

lemma ceil_div_real: "0 < b \<Longrightarrow> int (ceil_div a b) = \<lceil>real a / real b\<rceil>"
proof -
  assume b: "0 < b"
  have up: "real a / real b \<le> real (ceil_div a b)"
  proof -
    have "real a \<le> real (ceil_div a b * b)" using ceil_div_mult_ge [OF b, of a] by (simp only: of_nat_le_iff)
    then show ?thesis using b by (simp add: divide_le_eq)
  qed
  have lo: "real (ceil_div a b) - 1 < real a / real b"
  proof (cases "ceil_div a b")
    case 0
    have "(0::real) \<le> real a / real b" by simp
    then have "- 1 < real a / real b" by linarith
    then show ?thesis unfolding 0 by simp
  next
    case (Suc i)
    then have "i * b < a" using b by (intro ceil_div_index_lt) simp_all
    then have "real (i * b) < real a" by (simp only: of_nat_less_iff)
    then show ?thesis using b Suc by (simp add: less_divide_eq)
  qed
  have "\<lceil>real a / real b\<rceil> = int (ceil_div a b)"
    using up lo by (intro ceiling_unique) simp_all
  then show ?thesis by simp
qed

lemma make_chunk_sel [simp]:
  "chunk_modelId (make_chunk mid xs cs i) = mid"
  "chunkIndex (make_chunk mid xs cs i) = i"
  "data (make_chunk mid xs cs i) = take cs (drop (i * cs) xs)"
  by (auto simp: make_chunk_def slice_def Let_def min_def)

lemma concat_consecutive_takes:
  "concat (map (\<lambda>i. take cs (drop (i * cs) xs)) [0..<n]) = take (n * cs) xs"
proof (induction n)
  case 0
  then show ?case by simp
next
  case (Suc n)
  have "take (n * cs) xs @ take cs (drop (n * cs) xs) = take (n * cs + cs) xs"
    by (simp add: take_add)
  then show ?case using Suc by (simp add: add.commute)
qed

lemma model_chunks_concat:
  "0 < cs \<Longrightarrow> concat (map data (model_chunks mid xs cs)) = xs"
  using ceil_div_mult_ge [of cs "length xs"]
  by (simp add: model_chunks_def comp_def concat_consecutive_takes)

lemma model_chunks_keys:
  "map chunk_key (model_chunks mid xs cs) = map (\<lambda>i. (mid, i)) [0..<ceil_div (length xs) cs]"
  by (simp add: model_chunks_def chunk_key_def comp_def)

lemma model_chunks_indices:
  "map chunkIndex (model_chunks mid xs cs) = [0..<ceil_div (length xs) cs]"
  by (simp add: model_chunks_def comp_def map_idI)

lemma length_model_chunks [simp]:
  "length (model_chunks mid xs cs) = ceil_div (length xs) cs"
  by (simp add: model_chunks_def)

lemma model_chunks_sorted_keys: "sorted (map chunk_key (model_chunks mid xs cs))"
  unfolding model_chunks_keys by (simp add: sorted_map sorted_wrt_iff_nth_less)

lemma model_chunks_distinct_keys: "distinct (map chunk_key (model_chunks mid xs cs))"
  unfolding model_chunks_keys by (simp add: distinct_map inj_on_def)

lemma model_chunks_in_range:
  assumes "0 < cs" and "length xs \<le> MAX_SAFE_INTEGER" and "c \<in> set (model_chunks mid xs cs)"
  shows "chunkRange mid (chunk_key c)"
proof -
  obtain i where i: "i < ceil_div (length xs) cs" and c: "c = make_chunk mid xs cs i"
    using assms(3) by (auto simp: model_chunks_def)
  have "i < length xs" using i ceil_div_le [OF assms(1), of "length xs"] by simp
  then show ?thesis using c assms(2) by (simp add: chunkRange_key)
qed


subsection \<open>Reassembly\<close>

lemma reassemble_concat:
  "offset + length (concat (map data chunks)) \<le> length view \<Longrightarrow>
   reassemble view offset chunks =
     Some (take offset view @ concat (map data chunks)
           @ drop (offset + length (concat (map data chunks))) view)"
proof (induction chunks arbitrary: view offset)
  case Nil
  then show ?case by simp
next
  case (Cons c chunks)
  let ?view = "take offset view @ data c @ drop (offset + length (data c)) view"
  have len: "length ?view = length view" using Cons.prems by simp
  have "reassemble (?view) (offset + length (data c)) chunks =
      Some (take (offset + length (data c)) ?view @ concat (map data chunks)
           @ drop (offset + length (data c) + length (concat (map data chunks))) ?view)"
    using Cons.prems by (intro Cons.IH) (simp add: len)
  moreover have "take (offset + length (data c)) ?view = take offset view @ data c"
    using Cons.prems by simp
  moreover have "drop (offset + length (data c) + length (concat (map data chunks))) ?view
        = drop (offset + length (data c) + length (concat (map data chunks))) view"
    using Cons.prems by (simp add: add.commute add.left_commute)
  ultimately show ?case using Cons.prems by (simp add: add.assoc)
qed

lemma reassemble_exact:
  "length (concat (map data chunks)) = n \<Longrightarrow>
   reassemble (replicate n 0) 0 chunks = Some (concat (map data chunks))"
  using reassemble_concat [of 0 chunks "replicate n 0"] by simp

subsection \<open>Effects on one model's records\<close>

lemma deleteModel_ok: "deleteModel mid False d = Inr (remove_models [mid] d)"
  by (simp add: deleteModel_def remove_models_def store_delete_def chunkRange_key)

lemma deleteModel_cases:
  "deleteModel mid fails d = (if fails then Inl RequestError else Inr (remove_models [mid] d))"
  by (cases fails) (simp_all add: deleteModel_ok, simp add: deleteModel_def)

lemma remove_models_append:
  "remove_models ys (remove_models xs d) = remove_models (xs @ ys) d"
  by (rule IDBDatabase.equality) (auto simp: remove_models_def intro: filter_cong)

lemma remove_models_Nil [simp]: "remove_models [] d = d"
  by (simp add: remove_models_def)

lemma metadata_of_removed:
  "metadata_of mid (remove_models ids d) = (if mid \<in> set ids then None else metadata_of mid d)"
  by (auto simp: metadata_of_def remove_models_def store_get_def
      intro: find_filter_weaker find_filter_excluded)

lemma chunks_of_removed:
  "chunks_of mid (remove_models ids d) = (if mid \<in> set ids then [] else chunks_of mid d)"
proof -
  have "filter (\<lambda>v. chunkRange mid (chunk_key v))
          (filter (\<lambda>c. \<not> (chunk_modelId c \<in> set ids \<and> chunkIndex c \<le> MAX_SAFE_INTEGER)) s)
        = (if mid \<in> set ids then [] else filter (\<lambda>v. chunkRange mid (chunk_key v)) s)" for s
    by (induction s) (auto simp: chunkRange_key)
  then show ?thesis by (simp add: chunks_of_def remove_models_def store_getAll_def)
qed

lemma metadata_of_written:
  "metadata_of mid' (write_model mid xs cs fn ct now d) =
     (if mid' = mid then Some (make_metadata mid xs cs fn ct now) else metadata_of mid' d)"
proof -
  have k: "modelId (make_metadata mid xs cs fn ct now) = mid" by (simp add: make_metadata_def)
  show ?thesis
    using store_get_put_same [of modelId "make_metadata mid xs cs fn ct now" "modelMetadata d"]
      store_get_put_other [of mid' modelId "make_metadata mid xs cs fn ct now" "modelMetadata d"]
    by (auto simp: metadata_of_def write_model_def k)
qed

lemma modelChunks_written:
  "modelChunks (write_model mid xs cs fn ct now d) =
     foldl (\<lambda>s chunk. store_put chunk_key chunk s) (modelChunks d) (model_chunks mid xs cs)"
  by (simp add: write_model_def model_chunks_def)

lemma chunks_of_written_other:
  assumes "mid' \<noteq> mid"
  shows "chunks_of mid' (write_model mid xs cs fn ct now d) = chunks_of mid' d"
proof -
  have "filter (\<lambda>v. chunkRange mid' (chunk_key v))
          (foldl (\<lambda>s chunk. store_put chunk_key chunk s) (modelChunks d) (model_chunks mid xs cs))
        = filter (\<lambda>v. chunkRange mid' (chunk_key v)) (modelChunks d)"
    using assms
    by (intro filter_foldl_put_out) (auto simp: chunkRange_def model_chunks_def chunk_key_def)
  then show ?thesis by (simp add: chunks_of_def store_getAll_def modelChunks_written)
qed

lemma chunks_of_written_same:
  assumes "0 < cs" and "length xs \<le> MAX_SAFE_INTEGER" and "chunks_of mid d = []"
  shows "chunks_of mid (write_model mid xs cs fn ct now d) = model_chunks mid xs cs"
proof -
  have empty: "filter (\<lambda>v. chunkRange mid (chunk_key v)) (modelChunks d) = []"
    using assms(3) by (simp add: chunks_of_def store_getAll_def flip: set_empty)
  have "filter (\<lambda>v. chunkRange mid (chunk_key v))
          (foldl (\<lambda>s chunk. store_put chunk_key chunk s) (modelChunks d) (model_chunks mid xs cs))
        = rev (model_chunks mid xs cs)"
    using model_chunks_distinct_keys model_chunks_in_range [OF assms(1,2)] empty
    by (intro filter_foldl_put_in) auto
  moreover have "sort_key chunk_key (rev (model_chunks mid xs cs)) = model_chunks mid xs cs"
    using model_chunks_distinct_keys [of mid xs cs]
    by (intro sort_key_inj_key_eq) (simp_all add: model_chunks_sorted_keys distinct_map)
  ultimately show ?thesis by (simp add: chunks_of_def store_getAll_def modelChunks_written)
qed


subsection \<open>The eviction sweep\<close>

lemma evict_loop_removes:
  "\<exists>ids. evict_loop maxSize fails cur metas d = remove_models ids d
         \<and> set ids \<subseteq> modelId ` set metas"
proof (induction metas arbitrary: cur d)
  case Nil
  show ?case by (rule exI [of _ "[]"]) simp
next
  case (Cons m metas)
  consider (stop) "cur \<le> int maxSize"
    | (skip) "\<not> cur \<le> int maxSize" "fails (modelId m)"
    | (evict) "\<not> cur \<le> int maxSize" "\<not> fails (modelId m)" by blast
  then show ?case
  proof cases
    case stop
    show ?thesis by (rule exI [of _ "[]"]) (simp add: stop)
  next
    case skip
    obtain ids where ids: "evict_loop maxSize fails cur metas d = remove_models ids d"
      and sub: "set ids \<subseteq> modelId ` set metas" using Cons.IH by blast
    show ?thesis
      by (rule exI [of _ ids]) (use skip ids sub in \<open>auto simp: deleteModel_def\<close>)
  next
    case evict
    obtain ids where ids: "evict_loop maxSize fails (cur - int (totalSize m)) metas
          (remove_models [modelId m] d) = remove_models ids (remove_models [modelId m] d)"
        and sub: "set ids \<subseteq> modelId ` set metas" using Cons.IH by blast
    show ?thesis
      by (rule exI [of _ "modelId m # ids"])
        (use evict ids sub in \<open>auto simp: deleteModel_cases remove_models_append\<close>)
  qed
qed

lemma evictModelsIfNeeded_removes:
  assumes "evictModelsIfNeeded self sf fails d = Inr d'"
  shows "\<exists>ids. d' = remove_models ids d"
proof (cases "d' = d")
  case True
  show ?thesis by (rule exI [of _ "[]"]) (simp add: True)
next
  case False
  let ?all = "store_getAll modelId (\<lambda>k. True) (modelMetadata d)"
  have "d' = evict_loop (this_maxCacheSize self) fails (\<Sum>meta\<leftarrow>?all. int (totalSize meta))
               (sort_key lastAccessed ?all) d"
    using assms False by (auto simp: evictModelsIfNeeded_def Let_def split: if_splits)
  then show ?thesis
    using evict_loop_removes [of "this_maxCacheSize self" fails
        "\<Sum>meta\<leftarrow>?all. int (totalSize meta)" "sort_key lastAccessed ?all" d]
    by metis
qed

subsection \<open>cacheModel and getModelFromCache on one model\<close>

lemma getDb_db_update:
  "getDb self = Inr d \<Longrightarrow> getDb (self\<lparr> db := Some d' \<rparr>) = Inr d'"
  by (auto simp: getDb_def split: init_result.splits option.splits)

lemma cacheModel_Fulfilled:
  assumes "cacheModel self mid xs fn ct now f = (Fulfilled (), self')"
  shows "\<exists>d ids. getDb self = Inr d \<and> 0 < this_chunkSize self
     \<and> self' = self\<lparr> db := Some (remove_models ids
                  (write_model mid xs (this_chunkSize self) fn ct now (remove_models [mid] d))) \<rparr>"
proof -
  obtain d where d: "getDb self = Inr d"
    using assms by (auto simp: cacheModel_def split: sum.splits)
  have nf: "\<not> delete_fails f"
    using assms d by (auto simp: cacheModel_def deleteModel_def split: sum.splits if_splits)
  have cs: "0 < this_chunkSize self"
    using assms d nf by (auto simp: cacheModel_def deleteModel_ok split: sum.splits if_splits)
  let ?d2 = "write_model mid xs (this_chunkSize self) fn ct now (remove_models [mid] d)"
  obtain d3 where ev: "evictModelsIfNeeded self (scan_fails f) (evict_fails f) ?d2 = Inr d3"
    and self': "self' = self\<lparr> db := Some d3 \<rparr>"
    using assms d nf cs
    by (auto simp: cacheModel_def deleteModel_ok Let_def split: sum.splits if_splits)
  obtain ids where "d3 = remove_models ids ?d2"
    using evictModelsIfNeeded_removes [OF ev] by blast
  then show ?thesis using d cs self' by blast
qed

lemma written_then_swept:
  assumes "0 < cs" and "length xs \<le> MAX_SAFE_INTEGER"
    and d'_def: "d' = remove_models ids (write_model mid xs cs fn ct now (remove_models [mid] d))"
  shows "metadata_of mid d' = (if mid \<in> set ids then None else Some (make_metadata mid xs cs fn ct now))"
    and "chunks_of mid d' = (if mid \<in> set ids then [] else model_chunks mid xs cs)"
proof -
  have "chunks_of mid (remove_models [mid] d) = []" by (simp add: chunks_of_removed)
  then have "chunks_of mid (write_model mid xs cs fn ct now (remove_models [mid] d))
      = model_chunks mid xs cs"
    using assms(1,2) by (rule chunks_of_written_same [rotated 2])
  then show "chunks_of mid d' = (if mid \<in> set ids then [] else model_chunks mid xs cs)"
    by (simp add: d'_def chunks_of_removed)
  show "metadata_of mid d' = (if mid \<in> set ids then None else Some (make_metadata mid xs cs fn ct now))"
    by (simp add: d'_def metadata_of_removed metadata_of_written)
qed

lemma getModelFromCache_absent:
  "getDb self = Inr d \<Longrightarrow> metadata_of mid d = None \<Longrightarrow> \<not> metadata_get_fails f \<Longrightarrow>
   getModelFromCache self mid now f = (Fulfilled None, self)"
  by (simp add: getModelFromCache_def metadata_of_def)

lemma getModelFromCache_complete:
  assumes "getDb self = Inr d" and "metadata_of mid d = Some m" 
    and "length (chunks_of mid d) = chunkCount m"
    and "sorted (map chunkIndex (chunks_of mid d))"
    and "length (concat (map data (chunks_of mid d))) = totalSize m"
    and "\<not> metadata_get_fails f" and "\<not> chunks_get_fails f"
  shows "fst (getModelFromCache self mid now f) = Fulfilled (Some (concat (map data (chunks_of mid d))))"
proof -
  define d1 where "d1 = (if touch_fails f then d
     else d\<lparr> modelMetadata := store_put modelId (m\<lparr> lastAccessed := now \<rparr>) (modelMetadata d) \<rparr>)"
  have ch: "store_getAll chunk_key (chunkRange mid) (modelChunks d1) = chunks_of mid d"
    by (simp add: d1_def chunks_of_def)
  have "reassemble (replicate (totalSize m) 0) 0 (sort_key chunkIndex (chunks_of mid d))
      = Some (concat (map data (chunks_of mid d)))"
    using assms(4,5) by (simp add: sort_key_id_if_sorted reassemble_exact)
  then show ?thesis
    using assms(1,2,3,6,7) ch
    by (simp add: getModelFromCache_def metadata_of_def Let_def flip: d1_def)
qed

lemma getDb_new_Undefined: "getDb (ModelCache_new cs mcs Undefined) = Inl CachingDisabled"
  by (simp add: getDb_def ModelCache_new_def initDatabase_def)

lemma getDb_new_OpenFails: "getDb (ModelCache_new cs mcs OpenFails) = Inl OpenError"
  by (simp add: getDb_def ModelCache_new_def initDatabase_def)

lemma getDb_new_Opens: "getDb (ModelCache_new cs mcs (Opens d)) = Inr d"
  by (simp add: getDb_def ModelCache_new_def initDatabase_def)

lemma isModelCached_metadata:
  "getDb self = Inr d \<Longrightarrow>
   fst (isModelCached self mid False) = Fulfilled (metadata_of mid d \<noteq> None)"
  by (simp add: isModelCached_def metadata_of_def)

subsection \<open>Chunk lengths\<close>

lemma ceil_div_alt: "0 < b \<Longrightarrow> ceil_div a b = a div b + (if a mod b = 0 then 0 else 1)"
proof -
  assume b: "0 < b"
  have a: "a = a div b * b + a mod b" by simp
  show ?thesis
  proof (cases "a mod b = 0")
    case True
    then have "a + b - 1 = a div b * b + (b - 1)" using a b by simp
    then have "(a + b - 1) div b = a div b + (b - 1) div b" using b
      by (simp only: div_mult_self3)
    then show ?thesis using True b by (simp add: ceil_div_def)
  next
    case False
    have e: "(a div b + 1) * b = a div b * b + b" by (simp add: algebra_simps)
    have "0 < a mod b" using False by simp
    then have "a + b - 1 = (a div b + 1) * b + (a mod b - 1)" using a e by linarith
    then have "(a + b - 1) div b = (a div b + 1) + (a mod b - 1) div b" using b
      by (simp only: div_mult_self3)
    moreover have "a mod b - 1 < b" using b by (simp add: less_imp_diff_less)
    ultimately show ?thesis using False by (simp add: ceil_div_def)
  qed
qed

lemma length_chunk_data:
  assumes "0 < cs" and "i < ceil_div (length xs) cs"
  shows "length (data (make_chunk mid xs cs i)) =
     (if i + 1 < ceil_div (length xs) cs then cs
      else if length xs mod cs = 0 then cs else length xs mod cs)"
proof -
  let ?L = "length xs"
  have len: "length (data (make_chunk mid xs cs i)) = min cs (?L - i * cs)"
    by (simp add: min.commute)
  show ?thesis
  proof (cases "i + 1 < ceil_div ?L cs")
    case True
    then have "(i + 1) * cs < ?L" by (rule ceil_div_index_lt [OF assms(1)])
    then have "cs \<le> ?L - i * cs" by simp
    then show ?thesis using True len by simp
  next
    case False
    then have n: "ceil_div ?L cs = i + 1" using assms(2) by simp
    have L: "?L = ?L div cs * cs + ?L mod cs" by simp
    show ?thesis
    proof (cases "?L mod cs = 0")
      case True
      then have "?L div cs = i + 1" using n ceil_div_alt [OF assms(1), of ?L] by simp
      then have "?L = (i + 1) * cs" using True L by simp
      then have "?L - i * cs = cs" by simp
      then show ?thesis using False True len by simp
    next
      case nz: False
      then have "?L div cs = i" using n ceil_div_alt [OF assms(1), of ?L] by simp
      then have "?L - i * cs = ?L mod cs" using L by (metis add_diff_cancel_left')
      moreover have "?L mod cs < cs" using assms(1) by simp
      ultimately show ?thesis using False nz len by simp
    qed
  qed
qed

lemma sum_length_model_chunks:
  "0 < cs \<Longrightarrow> sum_list (map (\<lambda>c. length (data c)) (model_chunks mid xs cs)) = length xs"
proof -
  assume cs: "0 < cs"
  have "length (concat (map data (model_chunks mid xs cs)))
      = sum_list (map (\<lambda>c. length (data c)) (model_chunks mid xs cs))"
    by (simp add: length_concat comp_def)
  then show ?thesis using model_chunks_concat [OF cs, of mid xs] by simp
qed

subsection \<open>The sweep without failing deletes\<close>

lemma evict_single_oversized:
  assumes "modelMetadata d = [m]" and "this_maxCacheSize self < totalSize m"
  shows "evictModelsIfNeeded self False fails d = Inr d"
  using assms by (simp add: evictModelsIfNeeded_def store_getAll_def)

lemma modelMetadata_written_alone:
  assumes "\<forall>m\<in>set (modelMetadata d). modelId m = mid"
  shows "modelMetadata (write_model mid xs cs fn ct now (remove_models [mid] d))
           = [make_metadata mid xs cs fn ct now]"
proof -
  have "filter (\<lambda>m. modelId m \<notin> set [mid]) (modelMetadata d) = []"
    using assms by (simp add: filter_empty_conv)
  then show ?thesis by (simp add: write_model_def remove_models_def store_put_def)
qed

lemma evict_loop_prefix:
  "\<exists>k\<le>length metas.
      evict_loop maxSize (\<lambda>m. False) cur metas d = remove_models (map modelId (take k metas)) d
    \<and> (\<forall>j<k. int maxSize < cur - (\<Sum>m\<leftarrow>take j metas. int (totalSize m)))
    \<and> (k = length metas \<or> cur - (\<Sum>m\<leftarrow>take k metas. int (totalSize m)) \<le> int maxSize)"
proof (induction metas arbitrary: cur d)
  case Nil
  show ?case by simp
next
  case (Cons m metas)
  show ?case
  proof (cases "cur \<le> int maxSize")
    case True
    show ?thesis by (rule exI [of _ 0]) (simp add: True)
  next
    case False
    obtain k where k: "k \<le> length metas"
      and ev: "evict_loop maxSize (\<lambda>m. False) (cur - int (totalSize m)) metas (remove_models [modelId m] d)
          = remove_models (map modelId (take k metas)) (remove_models [modelId m] d)"
      and over: "\<forall>j<k. int maxSize < cur - int (totalSize m) - (\<Sum>m\<leftarrow>take j metas. int (totalSize m))"
      and stop: "k = length metas \<or> cur - int (totalSize m) - (\<Sum>m\<leftarrow>take k metas. int (totalSize m)) \<le> int maxSize"
      using Cons.IH [of "cur - int (totalSize m)" "remove_models [modelId m] d"] by blast
    have 1: "evict_loop maxSize (\<lambda>m. False) cur (m # metas) d
        = remove_models (map modelId (take (Suc k) (m # metas))) d"
      using False ev by (simp add: deleteModel_ok remove_models_append)
    have 2: "\<forall>j<Suc k. int maxSize < cur - (\<Sum>m\<leftarrow>take j (m # metas). int (totalSize m))"
    proof (intro allI impI)
      fix j assume "j < Suc k"
      then show "int maxSize < cur - (\<Sum>m\<leftarrow>take j (m # metas). int (totalSize m))"
        using False over by (cases j) (auto simp: algebra_simps)
    qed
    have 3: "Suc k = length (m # metas)
        \<or> cur - (\<Sum>m\<leftarrow>take (Suc k) (m # metas). int (totalSize m)) \<le> int maxSize"
      using stop by (auto simp: algebra_simps)
    show ?thesis
      by (rule exI [of _ "Suc k"]) (use k 1 2 3 in \<open>simp del: take_Suc_Cons\<close>)
  qed
qed

lemma sort_key_least_first:
  assumes "a \<in> set xs" and "\<forall>x\<in>set xs. x \<noteq> a \<longrightarrow> f a < f x"
  shows "\<exists>rest. sort_key f xs = a # rest"
proof (cases "sort_key f xs")
  case Nil
  then have "xs = []" by (metis length_0_conv length_sort)
  then show ?thesis using assms(1) by simp
next
  case (Cons h rest)
  have hs: "h \<in> set xs" by (metis Cons list.set_intros(1) set_sort)
  have "a \<in> set (h # rest)" using assms(1) Cons by (metis set_sort)
  moreover have "sorted (map f (h # rest))" using Cons by (metis sorted_sort_key)
  ultimately have "f h \<le> f a" by auto
  then have "h = a" using assms(2) hs by force
  then show ?thesis using Cons by simp
qed

lemma sum_list_mset_cong:
  fixes g :: "'a \<Rightarrow> int"
  assumes "mset xs = mset ys"
  shows "(\<Sum>x\<leftarrow>xs. g x) = (\<Sum>x\<leftarrow>ys. g x)"
proof -
  have "sum_mset (mset (map g xs)) = sum_mset (mset (map g ys))"
    using assms by simp
  then show ?thesis by (simp only: sum_mset_sum_list)
qed

lemma sum_list_sort_key:
  fixes g :: "'a \<Rightarrow> int"
  shows "(\<Sum>x\<leftarrow>sort_key f xs. g x) = (\<Sum>x\<leftarrow>xs. g x)"
  by (rule sum_list_mset_cong) simp

lemma store_get_unique:
  assumes "b \<in> set xs" and "\<forall>x\<in>set xs. key x = key b \<longrightarrow> x = b"
  shows "store_get key (key b) xs = Some b"
  using assms unfolding store_get_def by (induction xs) auto

lemma evictModelsIfNeeded_sweep:
  assumes "sortedMetadata = sort_key lastAccessed (store_getAll modelId (\<lambda>k. True) (modelMetadata d))"
    and "currentCacheSize = (\<Sum>m\<leftarrow>sortedMetadata. int (totalSize m))"
    and "int (this_maxCacheSize self) < currentCacheSize"
    and "length sortedMetadata \<noteq> 1"
  shows "evictModelsIfNeeded self False fails d
     = Inr (evict_loop (this_maxCacheSize self) fails currentCacheSize sortedMetadata d)"
proof -
  let ?all = "store_getAll modelId (\<lambda>k. True) (modelMetadata d)"
  have t: "currentCacheSize = (\<Sum>m\<leftarrow>?all. int (totalSize m))"
    by (simp add: assms(1,2) sum_list_sort_key)
  have l: "length ?all \<noteq> 1" using assms(4) by (simp add: assms(1))
  show ?thesis
    using assms(3) l unfolding evictModelsIfNeeded_def Let_def t [symmetric] assms(1) [symmetric]
    by simp
qed

subsection \<open>The sweep with failing deletes\<close>

lemma evictModelsIfNeeded_total:
  "\<exists>d'. evictModelsIfNeeded self False fails d = Inr d'"
  by (simp add: evictModelsIfNeeded_def Let_def)

lemma evict_loop_skip:
  "int maxSize < cur \<Longrightarrow> fails (modelId m) \<Longrightarrow>
   evict_loop maxSize fails cur (m # rest) d = evict_loop maxSize fails cur rest d"
  by (simp add: deleteModel_def)

lemma evict_loop_evicts_head:
  assumes "int maxSize < cur" and "\<not> fails (modelId m)"
  shows "metadata_of (modelId m) (evict_loop maxSize fails cur (m # rest) d) = None
     \<and> chunks_of (modelId m) (evict_loop maxSize fails cur (m # rest) d) = []"
proof -
  obtain ids where "evict_loop maxSize fails (cur - int (totalSize m)) rest (remove_models [modelId m] d)
      = remove_models ids (remove_models [modelId m] d)"
    using evict_loop_removes by blast
  then have "evict_loop maxSize fails cur (m # rest) d = remove_models (modelId m # ids) d"
    using assms by (simp add: deleteModel_ok remove_models_append)
  then show ?thesis by (simp add: metadata_of_removed chunks_of_removed)
qed

subsection \<open>Consistency of the records of a model\<close>

lemma entry_consistent_removed:
  "entry_consistent j d \<Longrightarrow> entry_consistent j (remove_models ids d)"
  by (auto simp: entry_consistent_def metadata_of_removed chunks_of_removed split: option.splits)

lemma entry_consistent_written:
  assumes "0 < cs" and "length xs \<le> MAX_SAFE_INTEGER" and "entry_consistent j d"
  shows "entry_consistent j (write_model mid xs cs fn ct now (remove_models [mid] d))"
proof (cases "j = mid")
  case True
  have "write_model mid xs cs fn ct now (remove_models [mid] d)
      = remove_models [] (write_model mid xs cs fn ct now (remove_models [mid] d))" by simp
  note sw = written_then_swept [OF assms(1,2) this]
  show ?thesis
    using sw by (simp add: True entry_consistent_def model_chunks_indices make_metadata_def)
next
  case False
  then show ?thesis
    using entry_consistent_removed [OF assms(3), of "[mid]"]
    by (auto simp: entry_consistent_def metadata_of_written chunks_of_written_other
        split: option.splits)
qed

lemma getDb_Inr_db: "getDb self = Inr d \<Longrightarrow> db self = Some d"
  by (auto simp: getDb_def split: init_result.splits option.splits)

lemma cacheModel_db_cases:
  assumes "getDb self = Inr d" and "0 < this_chunkSize self"
    and "cacheModel self mid xs fn ct now pf = (r, self')" and "db self' = Some d'"
  shows "d' = d \<or> d' = remove_models [mid] d
    \<or> (\<exists>ids. d' = remove_models ids
          (write_model mid xs (this_chunkSize self) fn ct now (remove_models [mid] d)))"
proof (cases "delete_fails pf")
  case True
  then have "self' = self" using assms(1,3) by (simp add: cacheModel_def deleteModel_def)
  then show ?thesis using assms(4) getDb_Inr_db [OF assms(1)] by simp
next
  case nd: False
  let ?d2 = "write_model mid xs (this_chunkSize self) fn ct now (remove_models [mid] d)"
  show ?thesis
  proof (cases "metadata_put_fails pf
       \<or> list_ex (chunk_put_fails pf) [0..<ceil_div (length xs) (this_chunkSize self)]")
    case True
    then have "self' = self\<lparr> db := Some (remove_models [mid] d) \<rparr>"
      using assms(1,2,3) nd by (simp add: cacheModel_def deleteModel_cases)
    then show ?thesis using assms(4) by simp
  next
    case False
    show ?thesis
    proof (cases "evictModelsIfNeeded self (scan_fails pf) (evict_fails pf) ?d2")
      case (Inl e)
      then have "self' = self\<lparr> db := Some ?d2 \<rparr>"
        using assms(1,2,3) nd False by (simp add: cacheModel_def deleteModel_cases)
      then have "d' = remove_models [] ?d2" using assms(4) by simp
      then show ?thesis by blast
    next
      case (Inr d3)
      then have "self' = self\<lparr> db := Some d3 \<rparr>"
        using assms(1,2,3) nd False by (simp add: cacheModel_def deleteModel_cases)
      moreover obtain ids where "d3 = remove_models ids ?d2"
        using evictModelsIfNeeded_removes [OF Inr] by blast
      ultimately show ?thesis using assms(4) by auto
    qed
  qed
qed

subsection \<open>Values of the concrete instances\<close>

lemma demo_cache_AB_value:
  "demo_cache_AB = \<lparr> db = Some
       \<lparr> modelMetadata =
           [\<lparr> modelId = ''B'', totalSize = 2, chunkCount = 1, chunkSize = 2, createdAt = 2,
               lastAccessed = 2, fileName = None, contentType = None \<rparr>,
            \<lparr> modelId = ''A'', totalSize = 2, chunkCount = 1, chunkSize = 2, createdAt = 1,
               lastAccessed = 1, fileName = None, contentType = None \<rparr>],
         modelChunks =
           [\<lparr> chunk_modelId = ''B'', chunkIndex = 0, data = [3, 4] \<rparr>,
            \<lparr> chunk_modelId = ''A'', chunkIndex = 0, data = [1, 2] \<rparr>] \<rparr>,
      dbReadyPromise = InitResolved, this_chunkSize = 2, this_maxCacheSize = 4 \<rparr>"
  by (simp add: demo_cache_AB_def eval_defs)

subsection \<open>When the model of a put stays cached\<close>

lemma cacheModel_Fulfilled_evict:
  assumes "cacheModel self mid xs fn ct now f = (Fulfilled (), self')" and "getDb self = Inr d"
  shows "0 < this_chunkSize self \<and> (\<exists>d3.
      evictModelsIfNeeded self False (evict_fails f)
        (write_model mid xs (this_chunkSize self) fn ct now (remove_models [mid] d)) = Inr d3
      \<and> self' = self\<lparr> db := Some d3 \<rparr>)"
proof -
  have nf: "\<not> delete_fails f"
    using assms by (auto simp: cacheModel_def deleteModel_def split: sum.splits if_splits)
  have cs: "0 < this_chunkSize self"
    using assms nf by (auto simp: cacheModel_def deleteModel_ok split: sum.splits if_splits)
  let ?d2 = "write_model mid xs (this_chunkSize self) fn ct now (remove_models [mid] d)"
  obtain d3 where ev: "evictModelsIfNeeded self (scan_fails f) (evict_fails f) ?d2 = Inr d3"
    and self': "self' = self\<lparr> db := Some d3 \<rparr>"
    using assms nf cs
    by (auto simp: cacheModel_def deleteModel_ok Let_def split: sum.splits if_splits)
  have "\<not> scan_fails f" using ev by (auto simp: evictModelsIfNeeded_def)
  then show ?thesis using cs ev self' by auto
qed

lemma evict_within_budget:
  assumes "(\<Sum>m\<leftarrow>modelMetadata d. int (totalSize m)) \<le> int (this_maxCacheSize self)
         \<or> length (modelMetadata d) = 1"
  shows "evictModelsIfNeeded self False fails d = Inr d"
proof -
  have "(\<Sum>m\<leftarrow>store_getAll modelId (\<lambda>k. True) (modelMetadata d). int (totalSize m))
      = (\<Sum>m\<leftarrow>modelMetadata d. int (totalSize m))"
    by (simp add: store_getAll_def sum_list_sort_key)
  moreover have "length (store_getAll modelId (\<lambda>k. True) (modelMetadata d)) = length (modelMetadata d)"
    by (simp add: store_getAll_def)
  ultimately show ?thesis using assms by (auto simp: evictModelsIfNeeded_def Let_def)
qed

lemma sort_key_greatest_last:
  assumes "mset xs = add_mset a (mset ys)" and "\<forall>y\<in>set ys. f y < f a"
  shows "\<exists>rest. sort_key f xs = rest @ [a] \<and> mset rest = mset ys"
proof -
  define S where "S = sort_key f xs"
  have ms: "mset S = add_mset a (mset ys)" using assms(1) by (simp add: S_def)
  have "set_mset (mset S) = set_mset (add_mset a (mset ys))" by (simp only: ms)
  then have setS: "set S = insert a (set ys)" by simp
  then have ne: "S \<noteq> []" by auto
  then have S: "S = butlast S @ [last S]" by simp
  have lastin: "last S \<in> set S" using ne by (rule last_in_set)
  have "sorted (map f S)" unfolding S_def by (rule sorted_sort_key)
  then have "sorted (map f (butlast S @ [last S]))" using S by simp
  then have le: "\<forall>x\<in>set (butlast S). f x \<le> f (last S)"
    by (simp add: sorted_append)
  have "last S = a"
  proof (rule ccontr)
    assume n: "last S \<noteq> a"
    then have "last S \<in> set ys" using lastin setS by auto
    then have lt: "f (last S) < f a" using assms(2) by blast
    have "a \<in> set (butlast S @ [last S])" using setS S by simp
    then have "a \<in> set (butlast S)" using n by simp
    then have "f a \<le> f (last S)" using le by blast
    then show False using lt by simp
  qed
  then have S': "S = butlast S @ [a]" using S by simp
  have "mset S = mset (butlast S @ [a])" using S' by simp
  then have "add_mset a (mset ys) = add_mset a (mset (butlast S))" using ms by simp
  then have "mset (butlast S) = mset ys" by simp
  then show ?thesis using S' unfolding S_def by blast
qed


lemma modelMetadata_written:
  "modelMetadata (write_model mid xs cs fn ct now d) =
     make_metadata mid xs cs fn ct now # filter (\<lambda>m. modelId m \<noteq> mid) (modelMetadata d)"
  by (simp add: write_model_def store_put_def make_metadata_def)

lemma evict_keeps_newest:
  assumes "modelMetadata d2 = new # others"
    and "\<forall>m\<in>set others. modelId m \<noteq> modelId new"
    and "\<forall>m\<in>set others. lastAccessed m < lastAccessed new"
    and "totalSize new \<le> this_maxCacheSize self"
  shows "\<exists>ids. evictModelsIfNeeded self False (\<lambda>m. False) d2 = Inr (remove_models ids d2)
           \<and> modelId new \<notin> set ids"
proof (cases "(\<Sum>m\<leftarrow>modelMetadata d2. int (totalSize m)) \<le> int (this_maxCacheSize self)
         \<or> length (modelMetadata d2) = 1")
  case True
  then have "evictModelsIfNeeded self False (\<lambda>m. False) d2 = Inr (remove_models [] d2)"
    by (simp only: evict_within_budget remove_models_Nil)
  then show ?thesis by (intro exI [of _ "[]"]) simp
next
  case False
  let ?max = "this_maxCacheSize self"
  define allMetadata where "allMetadata = store_getAll modelId (\<lambda>k. True) (modelMetadata d2)"
  define sortedMetadata where "sortedMetadata = sort_key lastAccessed allMetadata"
  define cur where "cur = (\<Sum>m\<leftarrow>sortedMetadata. int (totalSize m))"
  have msAll: "mset allMetadata = add_mset new (mset others)"
    by (simp add: allMetadata_def store_getAll_def assms(1))
  have cur_all: "cur = (\<Sum>m\<leftarrow>modelMetadata d2. int (totalSize m))"
    unfolding cur_def sortedMetadata_def allMetadata_def store_getAll_def
    by (simp add: sum_list_sort_key)
  have len: "length sortedMetadata = length (modelMetadata d2)"
    by (simp add: sortedMetadata_def allMetadata_def store_getAll_def)
  have gt: "int ?max < cur" and ne: "length sortedMetadata \<noteq> 1"
    using False by (simp_all add: cur_all len)
  have sweep: "evictModelsIfNeeded self False (\<lambda>m. False) d2
      = Inr (evict_loop ?max (\<lambda>m. False) cur sortedMetadata d2)"
    using gt ne
    by (intro evictModelsIfNeeded_sweep) (simp_all add: sortedMetadata_def allMetadata_def cur_def)
  obtain k where k: "k \<le> length sortedMetadata"
    and ev: "evict_loop ?max (\<lambda>m. False) cur sortedMetadata d2
              = remove_models (map modelId (take k sortedMetadata)) d2"
    and over: "\<forall>j<k. int ?max < cur - (\<Sum>m\<leftarrow>take j sortedMetadata. int (totalSize m))"
    using evict_loop_prefix [of sortedMetadata ?max cur d2] by blast
  obtain rest where srt: "sortedMetadata = rest @ [new]" and msr: "mset rest = mset others"
    using sort_key_greatest_last [OF msAll assms(3)] unfolding sortedMetadata_def by blast
  have "set_mset (mset rest) = set_mset (mset others)" by (simp only: msr)
  then have setr: "set rest = set others" by simp
  have cur_rest: "cur = (\<Sum>m\<leftarrow>rest. int (totalSize m)) + int (totalSize new)"
    by (simp add: cur_def srt)
  have "k \<le> length rest"
  proof (rule ccontr)
    assume "\<not> k \<le> length rest"
    then have "length rest < k" by simp
    then have "int ?max < cur - (\<Sum>m\<leftarrow>take (length rest) sortedMetadata. int (totalSize m))"
      using over by blast
    then show False using cur_rest assms(4) by (simp add: srt)
  qed
  then have "take k sortedMetadata = take k rest" by (simp add: srt)
  then have "set (take k sortedMetadata) \<subseteq> set others"
    using setr by (metis set_take_subset)
  then have "modelId new \<notin> set (map modelId (take k sortedMetadata))"
    using assms(2) by auto
  then show ?thesis using sweep ev by (intro exI [of _ "map modelId (take k sortedMetadata)"]) simp
qed

lemma put_keeps_model:
  assumes "cacheModel self mid xs fn ct now pf = (Fulfilled (), self')"
    and "getDb self = Inr d" and "deleteModel mid False d = Inr d1"
    and "d2 = write_model mid xs (this_chunkSize self) fn ct now d1"
    and "(\<Sum>m\<leftarrow>modelMetadata d2. int (totalSize m)) \<le> int (this_maxCacheSize self)
       \<or> length (modelMetadata d2) = 1
       \<or> (\<forall>m. \<not> evict_fails pf m) \<and> length xs \<le> this_maxCacheSize self
          \<and> (\<forall>m\<in>set (modelMetadata d2). modelId m \<noteq> mid \<longrightarrow> lastAccessed m < now)"
  shows "fst (isModelCached self' mid False) = Fulfilled True"
proof -
  let ?new = "make_metadata mid xs (this_chunkSize self) fn ct now"
  have d1: "d1 = remove_models [mid] d" using assms(3) by (simp add: deleteModel_ok)
  obtain d3 where ev: "evictModelsIfNeeded self False (evict_fails pf) d2 = Inr d3"
    and self': "self' = self\<lparr> db := Some d3 \<rparr>"
    using cacheModel_Fulfilled_evict [OF assms(1,2)] by (auto simp: assms(4) d1)
  have db: "getDb self' = Inr d3" using assms(2) by (simp add: self' getDb_db_update)
  have m2: "metadata_of mid d2 = Some ?new" by (simp add: assms(4) metadata_of_written)
  have "\<exists>ids. d3 = remove_models ids d2 \<and> mid \<notin> set ids"
  proof (cases "(\<Sum>m\<leftarrow>modelMetadata d2. int (totalSize m)) \<le> int (this_maxCacheSize self)
       \<or> length (modelMetadata d2) = 1")
    case True
    then have "d3 = remove_models [] d2" using ev by (simp add: evict_within_budget)
    then show ?thesis by (intro exI [of _ "[]"]) simp
  next
    case False
    then have c: "\<forall>m. \<not> evict_fails pf m" "length xs \<le> this_maxCacheSize self"
      "\<forall>m\<in>set (modelMetadata d2). modelId m \<noteq> mid \<longrightarrow> lastAccessed m < now"
      using assms(5) by auto
    have nofail: "evict_fails pf = (\<lambda>m. False)" using c(1) by auto
    let ?others = "filter (\<lambda>m. modelId m \<noteq> mid) (modelMetadata d1)"
    have md: "modelMetadata d2 = ?new # ?others" by (simp add: assms(4) modelMetadata_written)
    have "\<exists>ids. evictModelsIfNeeded self False (\<lambda>m. False) d2 = Inr (remove_models ids d2)
           \<and> modelId ?new \<notin> set ids"
      using c(2,3) by (intro evict_keeps_newest [OF md]) (auto simp: md make_metadata_def)
    then show ?thesis using ev by (auto simp: nofail make_metadata_def)
  qed
  then obtain ids where "d3 = remove_models ids d2" and "mid \<notin> set ids" by blast
  then have "metadata_of mid d3 = Some ?new" using m2 by (simp add: metadata_of_removed)
  then show ?thesis using isModelCached_metadata [OF db, of mid] by simp
qed

lemma getModelFromCache_after_put:
  assumes "cacheModel self mid modelData fn ct now pf = (Fulfilled (), self')"
    and "length modelData \<le> MAX_SAFE_INTEGER"
    and "\<not> metadata_get_fails gf" and "\<not> chunks_get_fails gf"
  shows "fst (getModelFromCache self' mid now' gf) =
           Fulfilled (if fst (isModelCached self' mid False) = Fulfilled True
                      then Some modelData else None)"
proof -
  obtain d ids where d: "getDb self = Inr d" and cs: "0 < this_chunkSize self"
    and self': "self' = self\<lparr> db := Some (remove_models ids
                  (write_model mid modelData (this_chunkSize self) fn ct now (remove_models [mid] d))) \<rparr>"
    using cacheModel_Fulfilled [OF assms(1)] by blast
  define d' where "d' = remove_models ids
      (write_model mid modelData (this_chunkSize self) fn ct now (remove_models [mid] d))"
  have db: "getDb self' = Inr d'"
    using d by (simp add: self' d'_def getDb_db_update)
  note sw = written_then_swept [OF cs assms(2) d'_def]
  show ?thesis
  proof (cases "mid \<in> set ids")
    case True
    then have "metadata_of mid d' = None" by (simp add: sw)
    then show ?thesis
      using getModelFromCache_absent [OF db _ assms(3), of mid now'] isModelCached_metadata [OF db, of mid]
      by simp
  next
    case False
    let ?m = "make_metadata mid modelData (this_chunkSize self) fn ct now"
    have m: "metadata_of mid d' = Some ?m"
      and ch: "chunks_of mid d' = model_chunks mid modelData (this_chunkSize self)"
      using False by (simp_all add: sw)
    have "fst (getModelFromCache self' mid now' gf)
        = Fulfilled (Some (concat (map data (chunks_of mid d'))))"
      using assms(3,4)
      by (intro getModelFromCache_complete [OF db m])
        (simp_all add: ch model_chunks_concat [OF cs] model_chunks_indices make_metadata_def)
    then show ?thesis
      using isModelCached_metadata [OF db, of mid] m by (simp add: ch model_chunks_concat [OF cs])
  qed
qed

lemma overwrite_records:
  assumes "cacheModel self mid dataA fnA ctA nowA pfA = (Fulfilled (), self1)"
    and "cacheModel self1 mid dataB fnB ctB nowB pfB = (Fulfilled (), self2)"
    and "length dataB \<le> MAX_SAFE_INTEGER"
    and "db self2 = Some d2"
    and "\<not> metadata_get_fails gf" and "\<not> chunks_get_fails gf"
    and "length dataA \<le> MAX_SAFE_INTEGER"
  shows "fst (getModelFromCache self2 mid now gf) =
           Fulfilled (if fst (isModelCached self2 mid False) = Fulfilled True
                      then Some dataB else None)
    \<and> chunks_of mid d2 =
           (if fst (isModelCached self2 mid False) = Fulfilled True
            then model_chunks mid dataB (this_chunkSize self) else [])
    \<and> (\<forall>chunk\<in>set (modelChunks d2). chunkRange mid (chunk_key chunk) \<longrightarrow>
           chunk \<in> set (model_chunks mid dataB (this_chunkSize self)))
    \<and> (\<forall>chunk\<in>set (model_chunks mid dataA (this_chunkSize self)).
           chunk \<in> set (modelChunks d2) \<longrightarrow>
           chunk \<in> set (model_chunks mid dataB (this_chunkSize self)))"
proof -
  obtain d0 ids0 where self1: "self1 = self\<lparr> db := Some (remove_models ids0
                  (write_model mid dataA (this_chunkSize self) fnA ctA nowA (remove_models [mid] d0))) \<rparr>"
    using cacheModel_Fulfilled [OF assms(1)] by blast
  then have cs1: "this_chunkSize self1 = this_chunkSize self" by simp
  obtain d ids where d: "getDb self1 = Inr d" and cs: "0 < this_chunkSize self"
    and self2: "self2 = self1\<lparr> db := Some (remove_models ids
                  (write_model mid dataB (this_chunkSize self) fnB ctB nowB (remove_models [mid] d))) \<rparr>"
    using cacheModel_Fulfilled [OF assms(2)] unfolding cs1 by blast
  have d2: "d2 = remove_models ids
      (write_model mid dataB (this_chunkSize self) fnB ctB nowB (remove_models [mid] d))"
    using assms(4) self2 by simp
  have db: "getDb self2 = Inr d2"
    using d by (simp add: self2 d2 getDb_db_update)
  note sw = written_then_swept [OF cs assms(3) d2]
  have cached: "fst (isModelCached self2 mid False) = Fulfilled (mid \<notin> set ids)"
    using isModelCached_metadata [OF db, of mid] by (simp add: sw)
  have get: "fst (getModelFromCache self2 mid now gf) =
           Fulfilled (if mid \<in> set ids then None else Some dataB)"
  proof (cases "mid \<in> set ids")
    case True
    then have "metadata_of mid d2 = None" by (simp add: sw)
    then show ?thesis
      using getModelFromCache_absent [OF db _ assms(5), of mid now] True by simp
  next
    case False
    let ?m = "make_metadata mid dataB (this_chunkSize self) fnB ctB nowB"
    have m: "metadata_of mid d2 = Some ?m"
      and ch: "chunks_of mid d2 = model_chunks mid dataB (this_chunkSize self)"
      using False by (simp_all add: sw)
    have "fst (getModelFromCache self2 mid now gf)
        = Fulfilled (Some (concat (map data (chunks_of mid d2))))"
      using assms(5,6)
      by (intro getModelFromCache_complete [OF db m])
        (simp_all add: ch model_chunks_concat [OF cs] model_chunks_indices make_metadata_def)
    then show ?thesis using False by (simp add: ch model_chunks_concat [OF cs])
  qed
  have "set (chunks_of mid d2) = {chunk \<in> set (modelChunks d2). chunkRange mid (chunk_key chunk)}"
    by (simp add: chunks_of_def store_getAll_def)
  then have inr: "\<forall>chunk\<in>set (modelChunks d2). chunkRange mid (chunk_key chunk) \<longrightarrow>
           chunk \<in> set (model_chunks mid dataB (this_chunkSize self))"
    using sw(2) by (auto split: if_splits)
  have first: "\<forall>chunk\<in>set (model_chunks mid dataA (this_chunkSize self)).
           chunk \<in> set (modelChunks d2) \<longrightarrow>
           chunk \<in> set (model_chunks mid dataB (this_chunkSize self))"
    using inr model_chunks_in_range [OF cs assms(7)] by blast
  show ?thesis using get cached sw(2) inr first by simp
qed

subsection \<open>Failing deletes are contained\<close>

lemma failing_deletes_contained:
  assumes "getDb self = Inr d" and "0 < this_chunkSize self"
  shows "fst (cacheModel self mid modelData fn ct now
            (pf\<lparr> delete_fails := False, metadata_put_fails := False,
                 chunk_put_fails := (\<lambda>i. False), scan_fails := False \<rparr>)) = Fulfilled ()
    \<and> (\<forall>fails d0. \<exists>d'. evictModelsIfNeeded self False fails d0 = Inr d')
    \<and> (\<forall>maxSize fails cur m rest d0.
          int maxSize < cur \<and> fails (modelId m) \<longrightarrow>
            evict_loop maxSize fails cur (m # rest) d0 = evict_loop maxSize fails cur rest d0)
    \<and> (\<forall>maxSize fails cur m next_oldest rest d0.
          int maxSize < cur \<and> fails (modelId m) \<and> \<not> fails (modelId next_oldest) \<longrightarrow>
            metadata_of (modelId next_oldest)
              (evict_loop maxSize fails cur (m # next_oldest # rest) d0) = None
          \<and> chunks_of (modelId next_oldest)
              (evict_loop maxSize fails cur (m # next_oldest # rest) d0) = [])"
proof -
  let ?pf = "pf\<lparr> delete_fails := False, metadata_put_fails := False,
                 chunk_put_fails := (\<lambda>i. False), scan_fails := False \<rparr>"
  let ?d2 = "write_model mid modelData (this_chunkSize self) fn ct now (remove_models [mid] d)"
  obtain d3 where "evictModelsIfNeeded self False (evict_fails pf) ?d2 = Inr d3"
    using evictModelsIfNeeded_total by blast
  moreover have "\<not> list_ex (\<lambda>i. False) xs" for xs :: "nat list"
    by (simp add: list_ex_iff)
  ultimately have put: "fst (cacheModel self mid modelData fn ct now ?pf) = Fulfilled ()"
    using assms by (simp add: cacheModel_def deleteModel_ok)
  have skip_then_evict: "metadata_of (modelId next_oldest)
              (evict_loop maxSize fails cur (m # next_oldest # rest) d0) = None
          \<and> chunks_of (modelId next_oldest)
              (evict_loop maxSize fails cur (m # next_oldest # rest) d0) = []"
    if "int maxSize < cur" "fails (modelId m)" "\<not> fails (modelId next_oldest)"
    for maxSize fails cur m next_oldest rest d0
  proof -
    have "evict_loop maxSize fails cur (m # next_oldest # rest) d0
        = evict_loop maxSize fails cur (next_oldest # rest) d0"
      using that(1,2) by (rule evict_loop_skip)
    moreover have "metadata_of (modelId next_oldest)
          (evict_loop maxSize fails cur (next_oldest # rest) d0) = None
        \<and> chunks_of (modelId next_oldest)
          (evict_loop maxSize fails cur (next_oldest # rest) d0) = []"
      using that(1,3) by (rule evict_loop_evicts_head)
    ultimately show ?thesis by simp
  qed
  show ?thesis
    using put evictModelsIfNeeded_total evict_loop_skip skip_then_evict by blast
qed

lemma failing_delete_example:
  "getDb demo_cache_AB = Inr (the (db demo_cache_AB))
   \<and> 0 < this_chunkSize demo_cache_AB
   \<and> fst (cacheModel demo_cache_AB ''C'' [5, 6] None None 3 delete_of_A_fails) = Fulfilled ()
   \<and> fst (isModelCached (snd (cacheModel demo_cache_AB ''C'' [5, 6] None None 3 delete_of_A_fails)) ''A'' False)
       = Fulfilled True
   \<and> fst (isModelCached (snd (cacheModel demo_cache_AB ''C'' [5, 6] None None 3 delete_of_A_fails)) ''B'' False)
       = Fulfilled False
   \<and> fst (isModelCached (snd (cacheModel demo_cache_AB ''C'' [5, 6] None None 3 delete_of_A_fails)) ''C'' False)
       = Fulfilled True"
proof -
  have h1: "getDb demo_cache_AB = Inr (the (db demo_cache_AB))"
    by (simp add: demo_cache_AB_value getDb_def)
  have h2: "0 < this_chunkSize demo_cache_AB" by (simp add: demo_cache_AB_value)
  have pf: "delete_of_A_fails\<lparr> delete_fails := False, metadata_put_fails := False,
                 chunk_put_fails := (\<lambda>i. False), scan_fails := False \<rparr> = delete_of_A_fails"
    by (simp add: delete_of_A_fails_def no_put_faults_def)
  have r: 
    "fst (isModelCached (snd (cacheModel demo_cache_AB ''C'' [5, 6] None None 3 delete_of_A_fails)) ''A'' False)
       = Fulfilled True"
    "fst (isModelCached (snd (cacheModel demo_cache_AB ''C'' [5, 6] None None 3 delete_of_A_fails)) ''B'' False)
       = Fulfilled False"
    "fst (isModelCached (snd (cacheModel demo_cache_AB ''C'' [5, 6] None None 3 delete_of_A_fails)) ''C'' False)
       = Fulfilled True"
    by (simp_all add: demo_cache_AB_value delete_of_A_fails_def eval_defs)
  have "fst (cacheModel demo_cache_AB ''C'' [5, 6] None None 3 delete_of_A_fails) = Fulfilled ()"
    using failing_deletes_contained [where pf = delete_of_A_fails and mid = "''C''"
        and modelData = "[5, 6]" and fn = None and ct = None and now = 3, OF h1 h2]
    by (simp only: pf)
  then show ?thesis using h1 h2 r by simp
qed

section \<open>The claims\<close>

text \<open>
  A buffer passed to \<^verbatim>\<open>cacheModel\<close> is an ArrayBuffer, whose length is at most
  \<open>MAX_SAFE_INTEGER\<close>. The theorems that read the chunks of a put back assume this
  bound on the list that stands for the buffer: it keeps every chunk index inside the
  key range \<open>[id, 0]\<close> to \<open>[id, MAX_SAFE_INTEGER]\<close> that the code queries and deletes.
  Where a theorem is about a run in which certain requests do not fail, the flags of
  these requests are set to \<open>False\<close> in the fault record and the other flags are left
  arbitrary.
\<close>

subsection \<open>C1: round trip\<close>

text \<open>
  C1 as stated fails: two puts that both succeed, after which the model stored last is
  absent. With a budget of 4 bytes, the model B (1 byte) is stored, then A (5 bytes);
  the sweep that ends the second put evicts B, is still over the budget and evicts A.
\<close>

theorem roundtrip_counterexample:
  "fst (cacheModel (snd (cacheModel demo_cache ''B'' [1] None None 5 no_put_faults))
           ''A'' [1, 2, 3, 4, 5] None None 6 no_put_faults) = Fulfilled ()
   \<and> fst (getModelFromCache
            (snd (cacheModel (snd (cacheModel demo_cache ''B'' [1] None None 5 no_put_faults))
                    ''A'' [1, 2, 3, 4, 5] None None 6 no_put_faults))
            ''A'' 7 no_get_faults) = Fulfilled None"
  by (simp add: eval_defs)

text \<open>
  C1, amended: after a successful \<^verbatim>\<open>cacheModel(id, bytes)\<close>, for a buffer of any
  length \<open>L\<close> (an ArrayBuffer has at most \<open>MAX_SAFE_INTEGER\<close> bytes), a
  \<^verbatim>\<open>getModelFromCache(id)\<close> whose two read requests succeed returns a buffer equal to
  the input if \<open>id\<close> is still cached, and reports absent if the eviction sweep of the
  put has evicted \<open>id\<close> itself. The model is still cached, and the buffer is returned,
  in each of these cases: the sizes of the models stored once the put has written sum
  to at most \<^verbatim>\<open>maxCacheSize\<close>; \<open>id\<close> is then the only model stored; or no delete of
  the sweep fails, the buffer alone fits \<^verbatim>\<open>maxCacheSize\<close> and every other stored
  model has a \<^verbatim>\<open>lastAccessed\<close> strictly before the time of the put. Whether the
  refresh of \<^verbatim>\<open>lastAccessed\<close> fails does not matter.
\<close>

theorem roundtrip_unless_evicted:
  assumes "cacheModel self mid modelData fn ct now pf = (Fulfilled (), self')"
    and "length modelData \<le> MAX_SAFE_INTEGER"
    and "\<not> metadata_get_fails gf" and "\<not> chunks_get_fails gf"
    and "getDb self = Inr d" and "deleteModel mid False d = Inr d1"
    and "d2 = write_model mid modelData (this_chunkSize self) fn ct now d1"
  shows "fst (getModelFromCache self' mid now' gf) =
           Fulfilled (if fst (isModelCached self' mid False) = Fulfilled True
                      then Some modelData else None)
    \<and> ((\<Sum>m\<leftarrow>modelMetadata d2. int (totalSize m)) \<le> int (this_maxCacheSize self)
         \<or> length (modelMetadata d2) = 1
         \<or> (\<forall>m. \<not> evict_fails pf m) \<and> length modelData \<le> this_maxCacheSize self
            \<and> (\<forall>m\<in>set (modelMetadata d2). modelId m \<noteq> mid \<longrightarrow> lastAccessed m < now)
        \<longrightarrow> fst (isModelCached self' mid False) = Fulfilled True
          \<and> fst (getModelFromCache self' mid now' gf) = Fulfilled (Some modelData))"
proof -
  have get: "fst (getModelFromCache self' mid now' gf) =
           Fulfilled (if fst (isModelCached self' mid False) = Fulfilled True
                      then Some modelData else None)"
    using assms(1,2,3,4) by (rule getModelFromCache_after_put)
  have "fst (isModelCached self' mid False) = Fulfilled True"
    if "(\<Sum>m\<leftarrow>modelMetadata d2. int (totalSize m)) \<le> int (this_maxCacheSize self)
         \<or> length (modelMetadata d2) = 1
         \<or> (\<forall>m. \<not> evict_fails pf m) \<and> length modelData \<le> this_maxCacheSize self
            \<and> (\<forall>m\<in>set (modelMetadata d2). modelId m \<noteq> mid \<longrightarrow> lastAccessed m < now)"
    using assms(1,5,6,7) that by (rule put_keeps_model)
  then show ?thesis using get by simp
qed

theorem roundtrip_unless_evicted_witness:
  "cacheModel demo_cache ''A'' [1, 2, 3] None None 5 no_put_faults
     = (Fulfilled (), snd (cacheModel demo_cache ''A'' [1, 2, 3] None None 5 no_put_faults))
   \<and> length [1, 2, 3 :: 8 word] \<le> MAX_SAFE_INTEGER
   \<and> \<not> metadata_get_fails no_get_faults \<and> \<not> chunks_get_fails no_get_faults
   \<and> getDb demo_cache = Inr \<lparr> modelMetadata = [], modelChunks = [] \<rparr>
   \<and> (\<Sum>m\<leftarrow>modelMetadata (write_model ''A'' [1, 2, 3] (this_chunkSize demo_cache) None None 5
          (remove_models [''A''] \<lparr> modelMetadata = [], modelChunks = [] \<rparr>)). int (totalSize m))
        \<le> int (this_maxCacheSize demo_cache)
   \<and> fst (getModelFromCache (snd (cacheModel demo_cache ''A'' [1, 2, 3] None None 5 no_put_faults))
            ''A'' 7 no_get_faults) = Fulfilled (Some [1, 2, 3])"
proof -
  let ?d = "\<lparr> modelMetadata = [], modelChunks = [] \<rparr>"
  have h1: "cacheModel demo_cache ''A'' [1, 2, 3] None None 5 no_put_faults
     = (Fulfilled (), snd (cacheModel demo_cache ''A'' [1, 2, 3] None None 5 no_put_faults))"
    by (simp add: eval_defs)
  have h2: "length [1, 2, 3 :: 8 word] \<le> MAX_SAFE_INTEGER" by (simp add: MAX_SAFE_INTEGER_def)
  have h3: "\<not> metadata_get_fails no_get_faults" and h4: "\<not> chunks_get_fails no_get_faults"
    by (simp_all add: no_get_faults_def)
  have h5: "getDb demo_cache = Inr ?d" by (simp add: demo_cache_def getDb_new_Opens)
  have h6: "deleteModel ''A'' False ?d = Inr (remove_models [''A''] ?d)" by (rule deleteModel_ok)
  have b: "(\<Sum>m\<leftarrow>modelMetadata (write_model ''A'' [1, 2, 3] (this_chunkSize demo_cache) None None 5
          (remove_models [''A''] ?d)). int (totalSize m)) \<le> int (this_maxCacheSize demo_cache)"
    by (simp add: eval_defs remove_models_def)
  show ?thesis
    using roundtrip_unless_evicted [OF h1 h2 h3 h4 h5 h6 refl, of 7] h1 h2 h3 h4 h5 b
    by simp
qed

subsection \<open>C2: a failing write\<close>

text \<open>
  C2 as stated fails: the put is not rolled back as a whole. The model A is cached; a
  second \<^verbatim>\<open>cacheModel\<close> for A whose first chunk put fails is rejected, and afterwards
  A is not cached any more: the delete that opens the put was a transaction of its own
  and stays committed.
\<close>

theorem failed_write_counterexample:
  "fst (isModelCached demo_cache_A ''A'' False) = Fulfilled True
   \<and> fst (cacheModel demo_cache_A ''A'' [9] None None 6 first_chunk_put_fails) = Rejected RequestError
   \<and> fst (isModelCached (snd (cacheModel demo_cache_A ''A'' [9] None None 6 first_chunk_put_fails))
           ''A'' False) = Fulfilled False
   \<and> db (snd (cacheModel demo_cache_A ''A'' [9] None None 6 first_chunk_put_fails)) \<noteq> db demo_cache_A"
  by (simp add: demo_cache_A_def first_chunk_put_fails_def eval_defs)

text \<open>
  C2, amended: if the metadata put or a chunk put of \<^verbatim>\<open>cacheModel(id, bytes)\<close> fails
  (the initial delete having succeeded), the write transaction is rolled back and the
  call is rejected: no record of \<open>id\<close>, partial or complete, remains, and the records
  of every other model are as before. An entry stored under \<open>id\<close> before the call is
  not restored. Whatever requests fail, if every model was absent or complete before
  the call, every model is absent or complete once the call is over.
\<close>

theorem failed_write_rolled_back:
  assumes "getDb self = Inr d" and "0 < this_chunkSize self"
    and "length modelData \<le> MAX_SAFE_INTEGER"
    and "\<not> delete_fails pf"
    and "metadata_put_fails pf
         \<or> (\<exists>i<ceil_div (length modelData) (this_chunkSize self). chunk_put_fails pf i)"
  shows "\<exists>d'. cacheModel self mid modelData fn ct now pf = (Rejected RequestError, self\<lparr> db := Some d' \<rparr>)
    \<and> metadata_of mid d' = None \<and> chunks_of mid d' = []
    \<and> (\<forall>j. j \<noteq> mid \<longrightarrow> metadata_of j d' = metadata_of j d \<and> chunks_of j d' = chunks_of j d)
    \<and> (\<forall>pf' r self'' d''.
          cacheModel self mid modelData fn ct now pf' = (r, self'') \<and> db self'' = Some d''
          \<and> (\<forall>j. entry_consistent j d)
          \<longrightarrow> (\<forall>j. entry_consistent j d''))"
proof -
  have fails: "metadata_put_fails pf
       \<or> list_ex (chunk_put_fails pf) [0..<ceil_div (length modelData) (this_chunkSize self)]"
    using assms(5) by (auto simp: list_ex_iff)
  have put: "cacheModel self mid modelData fn ct now pf
      = (Rejected RequestError, self\<lparr> db := Some (remove_models [mid] d) \<rparr>)"
    using assms(1,2,4) fails by (simp add: cacheModel_def deleteModel_cases)
  have others: "\<forall>j. j \<noteq> mid \<longrightarrow> metadata_of j (remove_models [mid] d) = metadata_of j d
        \<and> chunks_of j (remove_models [mid] d) = chunks_of j d"
    by (simp add: metadata_of_removed chunks_of_removed)
  have inv: "\<forall>j. entry_consistent j d''"
    if c: "cacheModel self mid modelData fn ct now pf' = (r, self'')" and s: "db self'' = Some d''"
      and ok: "\<forall>j. entry_consistent j d" for pf' r self'' d''
  proof -
    consider "d'' = d" | "d'' = remove_models [mid] d"
      | ids where "d'' = remove_models ids
          (write_model mid modelData (this_chunkSize self) fn ct now (remove_models [mid] d))"
      using cacheModel_db_cases [OF assms(1,2) c s] by blast
    then show ?thesis
    proof cases
      case 1
      then show ?thesis using ok by simp
    next
      case 2
      then show ?thesis using ok by (simp add: entry_consistent_removed)
    next
      case 3
      then show ?thesis
        using ok by (simp add: entry_consistent_removed entry_consistent_written [OF assms(2,3)])
    qed
  qed
  show ?thesis
    apply (rule exI [of _ "remove_models [mid] d"])
    using put others inv by (simp add: metadata_of_removed chunks_of_removed) blast
qed

theorem failed_write_rolled_back_witness:
  "getDb demo_cache_A = Inr (the (db demo_cache_A))
   \<and> 0 < this_chunkSize demo_cache_A
   \<and> length [9 :: 8 word] \<le> MAX_SAFE_INTEGER
   \<and> \<not> delete_fails first_chunk_put_fails
   \<and> chunk_put_fails first_chunk_put_fails 0
   \<and> fst (cacheModel demo_cache_A ''A'' [9] None None 6 first_chunk_put_fails) = Rejected RequestError
   \<and> modelMetadata (the (db (snd (cacheModel demo_cache_A ''A'' [9] None None 6 first_chunk_put_fails)))) = []
   \<and> modelChunks (the (db (snd (cacheModel demo_cache_A ''A'' [9] None None 6 first_chunk_put_fails)))) = []"
proof -
  have h1: "getDb demo_cache_A = Inr (the (db demo_cache_A))"
    by (simp add: demo_cache_A_def eval_defs)
  have h2: "0 < this_chunkSize demo_cache_A" by (simp add: demo_cache_A_def eval_defs)
  have h3: "length [9 :: 8 word] \<le> MAX_SAFE_INTEGER" by (simp add: MAX_SAFE_INTEGER_def)
  have h4: "\<not> delete_fails first_chunk_put_fails"
    by (simp add: first_chunk_put_fails_def no_put_faults_def)
  have c0: "chunk_put_fails first_chunk_put_fails 0"
    by (simp add: first_chunk_put_fails_def)
  have "this_chunkSize demo_cache_A = 2" by (simp add: demo_cache_A_def eval_defs)
  then have "0 < ceil_div (length [9 :: 8 word]) (this_chunkSize demo_cache_A)"
    by (simp add: ceil_div_def)
  then have h5: "metadata_put_fails first_chunk_put_fails
         \<or> (\<exists>i<ceil_div (length [9 :: 8 word]) (this_chunkSize demo_cache_A).
               chunk_put_fails first_chunk_put_fails i)"
    using c0 by blast
  have r: "fst (cacheModel demo_cache_A ''A'' [9] None None 6 first_chunk_put_fails) = Rejected RequestError"
    "modelMetadata (the (db (snd (cacheModel demo_cache_A ''A'' [9] None None 6 first_chunk_put_fails)))) = []"
    "modelChunks (the (db (snd (cacheModel demo_cache_A ''A'' [9] None None 6 first_chunk_put_fails)))) = []"
    by (simp_all add: demo_cache_A_def first_chunk_put_fails_def eval_defs)
  show ?thesis
    using failed_write_rolled_back [OF h1 h2 h3 h4 h5, of "''A''" None None 6] h1 h2 h3 h4 c0 r
    by simp
qed

subsection \<open>C3: the store could not be opened\<close>

text \<open>
  C3 as stated fails on the chunked cache: when the open request has failed, or when
  there is no IndexedDB, each of the four methods is rejected with an error instead of
  reporting absent, false or doing nothing.
\<close>

theorem store_unavailable_counterexample:
  "fst (getModelFromCache (ModelCache_new None None OpenFails) ''m'' 0 no_get_faults) = Rejected OpenError
   \<and> fst (isModelCached (ModelCache_new None None OpenFails) ''m'' False) = Rejected OpenError
   \<and> fst (cacheModel (ModelCache_new None None Undefined) ''m'' [1] None None 0 no_put_faults)
       = Rejected CachingDisabled
   \<and> fst (clearCache (ModelCache_new None None Undefined) False) = Rejected CachingDisabled"
  by (simp add: getModelFromCache_def isModelCached_def cacheModel_def clearCache_def
      getDb_new_Undefined getDb_new_OpenFails)

text \<open>
  C3, amended: whenever the store could not be opened, every later call of the chunked
  cache fails fast, without opening again and without touching a record:
  \<^verbatim>\<open>getModelFromCache\<close>, \<^verbatim>\<open>isModelCached\<close>, \<^verbatim>\<open>cacheModel\<close> and \<^verbatim>\<open>clearCache\<close> are
  rejected with the error of \<^verbatim>\<open>getDb\<close> (the open error after a failed open request,
  the "caching is disabled" error when IndexedDB is unavailable). Only the legacy
  single-store cache degrades silently in these two cases: its
  \<^verbatim>\<open>getModelFromCache\<close> reports absent, \<^verbatim>\<open>isModelCached\<close> reports false,
  \<^verbatim>\<open>cacheModel\<close> and \<^verbatim>\<open>clearCache\<close> do nothing, and none of them raises an error.
\<close>

theorem store_unavailable_behaviour:
  "getModelFromCache (ModelCache_new cs mcs OpenFails) mid now gf
      = (Rejected OpenError, ModelCache_new cs mcs OpenFails)
   \<and> isModelCached (ModelCache_new cs mcs OpenFails) mid fails
      = (Rejected OpenError, ModelCache_new cs mcs OpenFails)
   \<and> cacheModel (ModelCache_new cs mcs OpenFails) mid modelData fn ct now pf
      = (Rejected OpenError, ModelCache_new cs mcs OpenFails)
   \<and> clearCache (ModelCache_new cs mcs OpenFails) fails
      = (Rejected OpenError, ModelCache_new cs mcs OpenFails)
   \<and> getModelFromCache (ModelCache_new cs mcs Undefined) mid now gf
      = (Rejected CachingDisabled, ModelCache_new cs mcs Undefined)
   \<and> isModelCached (ModelCache_new cs mcs Undefined) mid fails
      = (Rejected CachingDisabled, ModelCache_new cs mcs Undefined)
   \<and> cacheModel (ModelCache_new cs mcs Undefined) mid modelData fn ct now pf
      = (Rejected CachingDisabled, ModelCache_new cs mcs Undefined)
   \<and> clearCache (ModelCache_new cs mcs Undefined) fails
      = (Rejected CachingDisabled, ModelCache_new cs mcs Undefined)
   \<and> getModelFromCacheV1 (ModelCacheV1_new Undefined) mid fails = Fulfilled None
   \<and> getModelFromCacheV1 (ModelCacheV1_new OpenFails) mid fails = Fulfilled None
   \<and> isModelCachedV1 (ModelCacheV1_new Undefined) mid fails = Fulfilled False
   \<and> isModelCachedV1 (ModelCacheV1_new OpenFails) mid fails = Fulfilled False
   \<and> cacheModelV1 (ModelCacheV1_new Undefined) mid modelData now fails
      = (Fulfilled (), ModelCacheV1_new Undefined)
   \<and> cacheModelV1 (ModelCacheV1_new OpenFails) mid modelData now fails
      = (Fulfilled (), ModelCacheV1_new OpenFails)
   \<and> clearCacheV1 (ModelCacheV1_new Undefined) fails = (Fulfilled (), ModelCacheV1_new Undefined)
   \<and> clearCacheV1 (ModelCacheV1_new OpenFails) fails = (Fulfilled (), ModelCacheV1_new OpenFails)"
  by (simp add: getModelFromCache_def isModelCached_def cacheModel_def clearCache_def
      getDb_new_Undefined getDb_new_OpenFails
      getModelFromCacheV1_def isModelCachedV1_def cacheModelV1_def clearCacheV1_def
      ModelCacheV1_new_def)

subsection \<open>C4: least recently used models are evicted first\<close>

text \<open>
  C4: when no request fails, a \<^verbatim>\<open>cacheModel\<close> succeeds, and if, once its records are
  written, the sizes of the stored models sum to more than \<^verbatim>\<open>maxCacheSize\<close> and the
  number of stored models is not one, then the models deleted are the first \<open>k\<close> of
  the stored models in ascending \<^verbatim>\<open>lastAccessed\<close> order: before each deletion the sum,
  less the sizes of the models deleted so far, still exceeded the budget, and after
  the last one it is within the budget or no model is left. In particular, with three
  stored models A, B, C, where A is strictly the oldest and B and C fit into the budget
  together, A is absent afterwards and B and C remain, with their chunks.
\<close>

theorem lru_eviction:
  assumes "getDb self = Inr d" and "0 < this_chunkSize self"
    and "deleteModel mid False d = Inr d1"
    and "d2 = write_model mid modelData (this_chunkSize self) fn ct now d1"
    and "sortedMetadata = sort_key lastAccessed (store_getAll modelId (\<lambda>k. True) (modelMetadata d2))"
    and "currentCacheSize = (\<Sum>m\<leftarrow>sortedMetadata. int (totalSize m))"
    and "int (this_maxCacheSize self) < currentCacheSize"
    and "length sortedMetadata \<noteq> 1"
  shows "\<exists>k\<le>length sortedMetadata. \<exists>d3.
      d3 = remove_models (map modelId (take k sortedMetadata)) d2
    \<and> cacheModel self mid modelData fn ct now no_put_faults = (Fulfilled (), self\<lparr> db := Some d3 \<rparr>)
    \<and> sorted (map lastAccessed sortedMetadata)
    \<and> (\<forall>j<k. int (this_maxCacheSize self) < currentCacheSize - (\<Sum>m\<leftarrow>take j sortedMetadata. int (totalSize m)))
    \<and> (k = length sortedMetadata
         \<or> currentCacheSize - (\<Sum>m\<leftarrow>take k sortedMetadata. int (totalSize m)) \<le> int (this_maxCacheSize self))
    \<and> (\<forall>a b c. mset (modelMetadata d2) = {#a, b, c#}
          \<and> distinct [modelId a, modelId b, modelId c]
          \<and> lastAccessed a < lastAccessed b \<and> lastAccessed a < lastAccessed c
          \<and> totalSize b + totalSize c \<le> this_maxCacheSize self
        \<longrightarrow> metadata_of (modelId a) d3 = None \<and> chunks_of (modelId a) d3 = []
          \<and> metadata_of (modelId b) d3 = Some b \<and> chunks_of (modelId b) d3 = chunks_of (modelId b) d2
          \<and> metadata_of (modelId c) d3 = Some c \<and> chunks_of (modelId c) d3 = chunks_of (modelId c) d2)"
proof -
  let ?max = "this_maxCacheSize self"
  obtain k where k: "k \<le> length sortedMetadata"
    and ev: "evict_loop ?max (\<lambda>m. False) currentCacheSize sortedMetadata d2
              = remove_models (map modelId (take k sortedMetadata)) d2"
    and over: "\<forall>j<k. int ?max < currentCacheSize - (\<Sum>m\<leftarrow>take j sortedMetadata. int (totalSize m))"
    and stop: "k = length sortedMetadata
         \<or> currentCacheSize - (\<Sum>m\<leftarrow>take k sortedMetadata. int (totalSize m)) \<le> int ?max"
    using evict_loop_prefix [of sortedMetadata ?max currentCacheSize d2] by blast
  define d3 where "d3 = remove_models (map modelId (take k sortedMetadata)) d2"
  have d1: "d1 = remove_models [mid] d" using assms(3) by (simp add: deleteModel_ok)
  have sweep: "evictModelsIfNeeded self False (\<lambda>m. False) d2 = Inr d3"
    using evictModelsIfNeeded_sweep [OF assms(5,6,7,8)] ev by (simp add: d3_def)
  have no_fail: "\<not> list_ex (\<lambda>i. False) xs" for xs :: "nat list"
    by (simp add: list_ex_iff)
  have put: "cacheModel self mid modelData fn ct now no_put_faults = (Fulfilled (), self\<lparr> db := Some d3 \<rparr>)"
    using assms(1,2) sweep
    by (simp add: cacheModel_def no_put_faults_def deleteModel_ok no_fail assms(4) d1)
  have srt: "sorted (map lastAccessed sortedMetadata)" by (simp add: assms(5))
  have abc: "metadata_of (modelId a) d3 = None \<and> chunks_of (modelId a) d3 = []
          \<and> metadata_of (modelId b) d3 = Some b \<and> chunks_of (modelId b) d3 = chunks_of (modelId b) d2
          \<and> metadata_of (modelId c) d3 = Some c \<and> chunks_of (modelId c) d3 = chunks_of (modelId c) d2"
    if ms: "mset (modelMetadata d2) = {#a, b, c#}"
      and ids: "distinct [modelId a, modelId b, modelId c]"
      and old: "lastAccessed a < lastAccessed b" "lastAccessed a < lastAccessed c"
      and fit: "totalSize b + totalSize c \<le> ?max" for a b c
  proof -
    have "set_mset (mset (modelMetadata d2)) = set_mset {#a, b, c#}" by (simp only: ms)
    then have set2: "set (modelMetadata d2) = {a, b, c}" by simp
    have msS: "mset sortedMetadata = {#a, b, c#}"
      using ms by (simp add: assms(5) store_getAll_def)
    have "size (mset sortedMetadata) = size {#a, b, c#}" by (simp only: msS)
    then have len: "length sortedMetadata = 3" by simp
    have in_all: "a \<in> set (store_getAll modelId (\<lambda>k. True) (modelMetadata d2))"
      and least: "\<forall>x\<in>set (store_getAll modelId (\<lambda>k. True) (modelMetadata d2)).
                   x \<noteq> a \<longrightarrow> lastAccessed a < lastAccessed x"
      using set2 old by (auto simp: store_getAll_def)
    have "\<exists>rest. sort_key lastAccessed (store_getAll modelId (\<lambda>k. True) (modelMetadata d2)) = a # rest"
      using in_all least by (rule sort_key_least_first)
    then obtain rest where hd: "sortedMetadata = a # rest"
      by (auto simp: assms(5))
    have "mset rest = mset [b, c]" using msS hd by simp
    then have "(\<Sum>m\<leftarrow>rest. int (totalSize m)) = (\<Sum>m\<leftarrow>[b, c]. int (totalSize m))"
      by (rule sum_list_mset_cong)
    then have "(\<Sum>m\<leftarrow>rest. int (totalSize m)) = int (totalSize b) + int (totalSize c)"
      by simp
    then have tot: "currentCacheSize = int (totalSize a) + int (totalSize b) + int (totalSize c)"
      by (simp add: assms(6) hd)
    have "k \<noteq> 0"
    proof
      assume "k = 0"
      then show False using stop assms(7) len by simp
    qed
    moreover have "k < 2"
    proof (rule ccontr)
      assume "\<not> k < 2"
      then have "int ?max < currentCacheSize - (\<Sum>m\<leftarrow>take 1 sortedMetadata. int (totalSize m))"
        using over by simp
      then show False using tot fit by (simp add: hd)
    qed
    ultimately have "k = 1" by simp
    then have d3: "d3 = remove_models [modelId a] d2" by (simp add: d3_def hd)
    have b: "metadata_of (modelId b) d2 = Some b" and c: "metadata_of (modelId c) d2 = Some c"
      unfolding metadata_of_def using set2 ids by (auto intro!: store_get_unique)
    show ?thesis using ids b c by (auto simp: d3 metadata_of_removed chunks_of_removed)
  qed
  show ?thesis
    apply (rule exI [of _ k], rule conjI [OF k], rule exI [of _ d3])
    using put srt over stop abc by (simp add: d3_def)
qed


theorem lru_eviction_witness:
  "getDb demo_cache_AB = Inr (the (db demo_cache_AB))
   \<and> 0 < this_chunkSize demo_cache_AB
   \<and> map modelId (modelMetadata (the (db demo_cache_AB))) = [''B'', ''A'']
   \<and> fst (cacheModel demo_cache_AB ''C'' [5, 6] None None 3 no_put_faults) = Fulfilled ()
   \<and> fst (isModelCached (snd (cacheModel demo_cache_AB ''C'' [5, 6] None None 3 no_put_faults)) ''A'' False)
       = Fulfilled False
   \<and> fst (isModelCached (snd (cacheModel demo_cache_AB ''C'' [5, 6] None None 3 no_put_faults)) ''B'' False)
       = Fulfilled True
   \<and> fst (isModelCached (snd (cacheModel demo_cache_AB ''C'' [5, 6] None None 3 no_put_faults)) ''C'' False)
       = Fulfilled True"
proof -
  let ?d = "the (db demo_cache_AB)"
  let ?d2 = "write_model ''C'' [5, 6] (this_chunkSize demo_cache_AB) None None 3 (remove_models [''C''] ?d)"
  let ?sorted = "sort_key lastAccessed (store_getAll modelId (\<lambda>k. True) (modelMetadata ?d2))"
  note AB = demo_cache_AB_value
  have h1: "getDb demo_cache_AB = Inr ?d" by (simp add: AB getDb_def)
  have h2: "0 < this_chunkSize demo_cache_AB" by (simp add: AB)
  have h3: "deleteModel ''C'' False ?d = Inr (remove_models [''C''] ?d)" by (rule deleteModel_ok)
  have h7: "int (this_maxCacheSize demo_cache_AB) < (\<Sum>m\<leftarrow>?sorted. int (totalSize m))"
    by (simp add: AB eval_defs remove_models_def)
  have h8: "length ?sorted \<noteq> 1"
    by (simp add: AB eval_defs remove_models_def)
  have ids: "map modelId (modelMetadata ?d) = [''B'', ''A'']" by (simp add: AB)
  have r: "fst (cacheModel demo_cache_AB ''C'' [5, 6] None None 3 no_put_faults) = Fulfilled ()"
    "fst (isModelCached (snd (cacheModel demo_cache_AB ''C'' [5, 6] None None 3 no_put_faults)) ''A'' False)
       = Fulfilled False"
    "fst (isModelCached (snd (cacheModel demo_cache_AB ''C'' [5, 6] None None 3 no_put_faults)) ''B'' False)
       = Fulfilled True"
    "fst (isModelCached (snd (cacheModel demo_cache_AB ''C'' [5, 6] None None 3 no_put_faults)) ''C'' False)
       = Fulfilled True"
    by (simp_all add: AB eval_defs)
  show ?thesis
    using lru_eviction [OF h1 h2 h3 refl refl refl h7 h8] h1 h2 ids r
    by simp
qed

subsection \<open>C5: a single oversized model stays\<close>

text \<open>
  C5: the eviction leaves a database with exactly one model alone, however large the
  model is. So when no other model is stored, a \<^verbatim>\<open>cacheModel\<close> of a model larger than
  \<^verbatim>\<open>maxCacheSize\<close> succeeds (its delete, puts and scan not failing), after which
  the model is cached and \<^verbatim>\<open>getModelFromCache\<close> returns its bytes.
\<close>

theorem single_oversized_model_stays:
  assumes "getDb self = Inr d"
    and "\<forall>m\<in>set (modelMetadata d). modelId m = mid"
    and "this_maxCacheSize self < length modelData"
    and "0 < this_chunkSize self"
    and "length modelData \<le> MAX_SAFE_INTEGER"
    and "self' = snd (cacheModel self mid modelData fn ct now
            (pf\<lparr> delete_fails := False, metadata_put_fails := False,
                 chunk_put_fails := (\<lambda>i. False), scan_fails := False \<rparr>))"
  shows "fst (cacheModel self mid modelData fn ct now
            (pf\<lparr> delete_fails := False, metadata_put_fails := False,
                 chunk_put_fails := (\<lambda>i. False), scan_fails := False \<rparr>)) = Fulfilled ()
    \<and> fst (isModelCached self' mid False) = Fulfilled True
    \<and> fst (getModelFromCache self' mid now'
            (gf\<lparr> metadata_get_fails := False, chunks_get_fails := False \<rparr>))
        = Fulfilled (Some modelData)
    \<and> (\<forall>d0 m fails. modelMetadata d0 = [m] \<and> this_maxCacheSize self < totalSize m
           \<longrightarrow> evictModelsIfNeeded self False fails d0 = Inr d0)"
proof -
  let ?pf = "pf\<lparr> delete_fails := False, metadata_put_fails := False,
                 chunk_put_fails := (\<lambda>i. False), scan_fails := False \<rparr>"
  let ?gf = "gf\<lparr> metadata_get_fails := False, chunks_get_fails := False \<rparr>"
  let ?cs = "this_chunkSize self"
  let ?d2 = "write_model mid modelData ?cs fn ct now (remove_models [mid] d)"
  have one: "modelMetadata ?d2 = [make_metadata mid modelData ?cs fn ct now]"
    using assms(2) by (rule modelMetadata_written_alone)
  have ev: "evictModelsIfNeeded self False (evict_fails pf) ?d2 = Inr ?d2"
    using assms(3) by (intro evict_single_oversized [OF one]) (simp add: make_metadata_def)
  have no_fail: "\<not> list_ex (\<lambda>i. False) xs" for xs :: "nat list"
    by (simp add: list_ex_iff)
  have put: "cacheModel self mid modelData fn ct now ?pf = (Fulfilled (), self\<lparr> db := Some ?d2 \<rparr>)"
    using assms(1,4) ev by (simp add: cacheModel_def deleteModel_ok no_fail)
  then have self': "self' = self\<lparr> db := Some ?d2 \<rparr>" using assms(6) by simp
  have db: "getDb self' = Inr ?d2" using assms(1) by (simp add: self' getDb_db_update)
  have "?d2 = remove_models [] ?d2" by simp
  note sw = written_then_swept [OF assms(4,5) this]
  have m: "metadata_of mid ?d2 = Some (make_metadata mid modelData ?cs fn ct now)"
    and ch: "chunks_of mid ?d2 = model_chunks mid modelData ?cs"
    using sw by simp_all
  have "fst (getModelFromCache self' mid now' ?gf)
        = Fulfilled (Some (concat (map data (chunks_of mid ?d2))))"
    by (intro getModelFromCache_complete [OF db m])
      (simp_all add: ch model_chunks_concat [OF assms(4)] model_chunks_indices make_metadata_def)
  then show ?thesis
    using put isModelCached_metadata [OF db, of mid] m evict_single_oversized [of _ _ self]
    by (simp add: ch model_chunks_concat [OF assms(4)])
qed

theorem single_oversized_model_stays_witness:
  "getDb demo_cache = Inr \<lparr> modelMetadata = [], modelChunks = [] \<rparr>
   \<and> this_maxCacheSize demo_cache < length [1, 2, 3, 4, 5 :: 8 word]
   \<and> fst (cacheModel demo_cache ''A'' [1, 2, 3, 4, 5] None None 5 no_put_faults) = Fulfilled ()
   \<and> fst (getModelFromCache (snd (cacheModel demo_cache ''A'' [1, 2, 3, 4, 5] None None 5 no_put_faults))
           ''A'' 7 no_get_faults) = Fulfilled (Some [1, 2, 3, 4, 5])"
proof -
  have h1: "getDb demo_cache = Inr \<lparr> modelMetadata = [], modelChunks = [] \<rparr>"
    by (simp add: demo_cache_def getDb_new_Opens)
  have h2: "\<forall>m\<in>set (modelMetadata \<lparr> modelMetadata = [], modelChunks = [] \<rparr>). modelId m = ''A''"
    by simp
  have h3: "this_maxCacheSize demo_cache < length [1, 2, 3, 4, 5 :: 8 word]"
    and h4: "0 < this_chunkSize demo_cache"
    by (simp_all add: demo_cache_def ModelCache_new_def)
  have h5: "length [1, 2, 3, 4, 5 :: 8 word] \<le> MAX_SAFE_INTEGER" by (simp add: MAX_SAFE_INTEGER_def)
  have pf: "no_put_faults\<lparr> delete_fails := False, metadata_put_fails := False,
                 chunk_put_fails := (\<lambda>i. False), scan_fails := False \<rparr> = no_put_faults"
    and gf: "no_get_faults\<lparr> metadata_get_fails := False, chunks_get_fails := False \<rparr> = no_get_faults"
    by (simp_all add: no_put_faults_def no_get_faults_def)
  show ?thesis
    using h1 h3 single_oversized_model_stays [OF h1 h2 h3 h4 h5 refl, of None None 5 no_put_faults 7 no_get_faults]
    by (simp only: pf gf)
qed

subsection \<open>C6: a corrupt entry heals itself\<close>

text \<open>
  C6: if \<^verbatim>\<open>getModelFromCache(id)\<close> finds a metadata record and a number of chunks that
  differs from its \<^verbatim>\<open>chunkCount\<close>, the call (its reads and the clean-up delete not
  failing) resolves to absent, not to an error; the metadata and the chunks of \<open>id\<close>
  are deleted, and \<^verbatim>\<open>isModelCached(id)\<close> is false afterwards.
\<close>

theorem corrupt_entry_self_heals:
  assumes "getDb self = Inr d"
    and "metadata_of mid d = Some m"
    and "length (chunks_of mid d) \<noteq> chunkCount m"
    and "self' = snd (getModelFromCache self mid now
            (gf\<lparr> metadata_get_fails := False, chunks_get_fails := False, cleanup_fails := False \<rparr>))"
    and "db self' = Some d'"
  shows "fst (getModelFromCache self mid now
            (gf\<lparr> metadata_get_fails := False, chunks_get_fails := False, cleanup_fails := False \<rparr>))
          = Fulfilled None
    \<and> metadata_of mid d' = None
    \<and> chunks_of mid d' = []
    \<and> fst (isModelCached self' mid False) = Fulfilled False"
proof -
  let ?gf = "gf\<lparr> metadata_get_fails := False, chunks_get_fails := False, cleanup_fails := False \<rparr>"
  define d1 where "d1 = (if touch_fails gf then d
     else d\<lparr> modelMetadata := store_put modelId (m\<lparr> lastAccessed := now \<rparr>) (modelMetadata d) \<rparr>)"
  have ch: "store_getAll chunk_key (chunkRange mid) (modelChunks d1) = chunks_of mid d"
    by (simp add: d1_def chunks_of_def)
  have res: "getModelFromCache self mid now ?gf
      = (Fulfilled None, self\<lparr> db := Some (remove_models [mid] d1) \<rparr>)"
    using assms(1,2,3) ch
    by (simp add: getModelFromCache_def metadata_of_def Let_def deleteModel_ok flip: d1_def)
  then have self': "self' = self\<lparr> db := Some (remove_models [mid] d1) \<rparr>" using assms(4) by simp
  then have d': "d' = remove_models [mid] d1" using assms(5) by simp
  have db: "getDb self' = Inr d'" using assms(1) by (simp add: self' d' getDb_db_update)
  have "metadata_of mid d' = None" and "chunks_of mid d' = []"
    by (simp_all add: d' metadata_of_removed chunks_of_removed)
  then show ?thesis using res isModelCached_metadata [OF db, of mid] by simp
qed

theorem corrupt_entry_self_heals_witness:
  "getDb corrupt_cache = Inr (the (db corrupt_cache))
   \<and> chunkCount (the (metadata_of ''A'' (the (db corrupt_cache)))) = 2
   \<and> length (chunks_of ''A'' (the (db corrupt_cache))) = 1
   \<and> fst (getModelFromCache corrupt_cache ''A'' 9 no_get_faults) = Fulfilled None
   \<and> fst (isModelCached (snd (getModelFromCache corrupt_cache ''A'' 9 no_get_faults)) ''A'' False)
       = Fulfilled False"
proof -
  let ?d = "the (db corrupt_cache)"
  let ?self' = "snd (getModelFromCache corrupt_cache ''A'' 9
     (no_get_faults\<lparr> metadata_get_fails := False, chunks_get_fails := False, cleanup_fails := False \<rparr>))"
  have gf: "no_get_faults\<lparr> metadata_get_fails := False, chunks_get_fails := False,
      cleanup_fails := False \<rparr> = no_get_faults"
    by (simp add: no_get_faults_def)
  have h1: "getDb corrupt_cache = Inr ?d" by (simp add: corrupt_cache_def eval_defs)
  have h2: "metadata_of ''A'' ?d = Some (the (metadata_of ''A'' ?d))"
    by (simp add: corrupt_cache_def eval_defs metadata_of_def)
  have c2: "chunkCount (the (metadata_of ''A'' ?d)) = 2"
    by (simp add: corrupt_cache_def eval_defs metadata_of_def)
  have c1: "length (chunks_of ''A'' ?d) = 1"
    by (simp add: corrupt_cache_def eval_defs chunks_of_def)
  have h3: "length (chunks_of ''A'' ?d) \<noteq> chunkCount (the (metadata_of ''A'' ?d))"
    by (simp add: c1 c2)
  have h5: "db ?self' = Some (the (db ?self'))"
    by (simp add: corrupt_cache_def eval_defs)
  show ?thesis
    using h1 c1 c2 corrupt_entry_self_heals [OF h1 h2 h3 refl h5]
    by (simp only: gf)
qed

subsection \<open>C7: the chunk invariant\<close>

text \<open>
  C7: after a successful put of \<open>L\<close> bytes, if the metadata of the model exists, then
  \<^verbatim>\<open>chunkCount\<close> is the ceiling of \<open>L / chunkSize\<close>; the chunk records of the model are
  \<^verbatim>\<open>chunkCount\<close> many, with the indices \<open>0, \<dots>, chunkCount - 1\<close>; every chunk but the
  last has \<^verbatim>\<open>chunkSize\<close> bytes and the last has \<open>L mod chunkSize\<close> bytes, or
  \<^verbatim>\<open>chunkSize\<close> when that is zero; and the chunk lengths sum to \<^verbatim>\<open>totalSize\<close>, which
  is \<open>L\<close>.
\<close>

theorem chunk_invariant:
  assumes "cacheModel self mid modelData fn ct now pf = (Fulfilled (), self')"
    and "length modelData \<le> MAX_SAFE_INTEGER"
    and "db self' = Some d'"
    and "metadata_of mid d' = Some m"
  shows "int (chunkCount m) = \<lceil>real (length modelData) / real (this_chunkSize self)\<rceil>
    \<and> length (chunks_of mid d') = chunkCount m
    \<and> map chunkIndex (chunks_of mid d') = [0..<chunkCount m]
    \<and> (\<forall>i<chunkCount m. length (data (chunks_of mid d' ! i)) =
          (if i + 1 < chunkCount m then this_chunkSize self
           else if length modelData mod this_chunkSize self = 0 then this_chunkSize self
           else length modelData mod this_chunkSize self))
    \<and> (\<Sum>chunk\<leftarrow>chunks_of mid d'. length (data chunk)) = totalSize m
    \<and> totalSize m = length modelData"
proof -
  obtain d ids where d: "getDb self = Inr d" and cs: "0 < this_chunkSize self"
    and self': "self' = self\<lparr> db := Some (remove_models ids
                  (write_model mid modelData (this_chunkSize self) fn ct now (remove_models [mid] d))) \<rparr>"
    using cacheModel_Fulfilled [OF assms(1)] by blast
  have d': "d' = remove_models ids
      (write_model mid modelData (this_chunkSize self) fn ct now (remove_models [mid] d))"
    using assms(3) self' by simp
  note sw = written_then_swept [OF cs assms(2) d']
  have kept: "mid \<notin> set ids" using assms(4) sw(1) by (auto split: if_splits)
  have m: "m = make_metadata mid modelData (this_chunkSize self) fn ct now"
    using assms(4) sw(1) kept by simp
  have ch: "chunks_of mid d' = model_chunks mid modelData (this_chunkSize self)"
    using sw(2) kept by simp
  have n: "chunkCount m = ceil_div (length modelData) (this_chunkSize self)"
    and t: "totalSize m = length modelData" by (simp_all add: m make_metadata_def)
  have "\<forall>i<chunkCount m. length (data (chunks_of mid d' ! i)) =
          (if i + 1 < chunkCount m then this_chunkSize self
           else if length modelData mod this_chunkSize self = 0 then this_chunkSize self
           else length modelData mod this_chunkSize self)"
  proof (intro allI impI)
    fix i assume i: "i < chunkCount m"
    then have "chunks_of mid d' ! i = make_chunk mid modelData (this_chunkSize self) i"
      by (simp add: ch n model_chunks_def)
    then show "length (data (chunks_of mid d' ! i)) =
          (if i + 1 < chunkCount m then this_chunkSize self
           else if length modelData mod this_chunkSize self = 0 then this_chunkSize self
           else length modelData mod this_chunkSize self)"
      using length_chunk_data [OF cs, of i modelData mid] i by (simp only: n)
  qed
  then show ?thesis
    using ceil_div_real [OF cs, of "length modelData"] sum_length_model_chunks [OF cs, of mid modelData]
    by (simp add: ch n t model_chunks_indices)
qed

theorem chunk_invariant_witness:
  "cacheModel demo_cache ''A'' [1, 2, 3] None None 5 no_put_faults
     = (Fulfilled (), snd (cacheModel demo_cache ''A'' [1, 2, 3] None None 5 no_put_faults))
   \<and> length [1, 2, 3 :: 8 word] \<le> MAX_SAFE_INTEGER
   \<and> chunkCount (the (metadata_of ''A''
        (the (db (snd (cacheModel demo_cache ''A'' [1, 2, 3] None None 5 no_put_faults)))))) = 2
   \<and> map (\<lambda>c. length (data c)) (chunks_of ''A''
        (the (db (snd (cacheModel demo_cache ''A'' [1, 2, 3] None None 5 no_put_faults))))) = [2, 1]"
proof -
  let ?self' = "snd (cacheModel demo_cache ''A'' [1, 2, 3] None None 5 no_put_faults)"
  have h1: "cacheModel demo_cache ''A'' [1, 2, 3] None None 5 no_put_faults = (Fulfilled (), ?self')"
    by (simp add: eval_defs)
  have h2: "length [1, 2, 3 :: 8 word] \<le> MAX_SAFE_INTEGER" by (simp add: MAX_SAFE_INTEGER_def)
  have h3: "db ?self' = Some (the (db ?self'))" by (simp add: eval_defs)
  have h4: "metadata_of ''A'' (the (db ?self')) = Some (the (metadata_of ''A'' (the (db ?self'))))"
    by (simp add: eval_defs metadata_of_def)
  have cs: "this_chunkSize demo_cache = 2" by (simp add: demo_cache_def ModelCache_new_def)
  have "map (\<lambda>c. length (data c)) (chunks_of ''A'' (the (db ?self'))) = [2, 1]"
    by (simp add: eval_defs chunks_of_def)
  moreover have "int (chunkCount (the (metadata_of ''A'' (the (db ?self'))))) = 2"
    using chunk_invariant [OF h1 h2 h3 h4] by (simp add: cs)
  ultimately show ?thesis using h1 h2 by simp
qed

subsection \<open>C8: overwriting a model\<close>

text \<open>
  C8 as stated fails: B is cached (1 byte, budget 4), then two puts under the same id A
  succeed, of 1 byte and of 5 bytes; the sweep that ends the second put evicts B and
  then A, and \<^verbatim>\<open>getModelFromCache\<close> reports A absent instead of returning the second
  buffer.
\<close>

theorem overwrite_counterexample:
  "fst (cacheModel (snd (cacheModel demo_cache ''B'' [1] None None 5 no_put_faults))
         ''A'' [1] None None 6 no_put_faults) = Fulfilled ()
   \<and> fst (cacheModel
          (snd (cacheModel (snd (cacheModel demo_cache ''B'' [1] None None 5 no_put_faults))
                  ''A'' [1] None None 6 no_put_faults))
          ''A'' [1, 2, 3, 4, 5] None None 7 no_put_faults) = Fulfilled ()
   \<and> fst (getModelFromCache
          (snd (cacheModel
             (snd (cacheModel (snd (cacheModel demo_cache ''B'' [1] None None 5 no_put_faults))
                     ''A'' [1] None None 6 no_put_faults))
             ''A'' [1, 2, 3, 4, 5] None None 7 no_put_faults))
          ''A'' 8 no_get_faults) = Fulfilled None"
  by (simp add: eval_defs)

text \<open>
  C8, amended: after a successful \<^verbatim>\<open>cacheModel(id, A)\<close> followed by a successful
  \<^verbatim>\<open>cacheModel(id, B)\<close>, the records stored under \<open>id\<close> are exactly those of \<open>B\<close> if
  \<open>id\<close> is still cached, and none if the sweep of the second put has evicted \<open>id\<close>:
  \<^verbatim>\<open>getModelFromCache(id)\<close> returns \<open>B\<close> or absent accordingly, every chunk in the key
  range of \<open>id\<close> is a chunk of the second put, and a chunk record written by the first
  put is in the store only if the second put wrote the same record. The model is still
  cached, with exactly the records of \<open>B\<close>, and \<open>B\<close> is returned, in each of these
  cases: the sizes of the models stored once the second put has written sum to at most
  \<^verbatim>\<open>maxCacheSize\<close>; \<open>id\<close> is then the only model stored; or no delete of the sweep
  fails, \<open>B\<close> alone fits \<^verbatim>\<open>maxCacheSize\<close> and every other stored model has a
  \<^verbatim>\<open>lastAccessed\<close> strictly before the time of the second put.
\<close>

theorem overwrite_leaves_only_second:
  assumes "cacheModel self mid dataA fnA ctA nowA pfA = (Fulfilled (), self1)"
    and "cacheModel self1 mid dataB fnB ctB nowB pfB = (Fulfilled (), self2)"
    and "length dataB \<le> MAX_SAFE_INTEGER"
    and "db self2 = Some d2"
    and "\<not> metadata_get_fails gf" and "\<not> chunks_get_fails gf"
    and "length dataA \<le> MAX_SAFE_INTEGER"
    and "getDb self1 = Inr d" and "deleteModel mid False d = Inr d1"
    and "dW = write_model mid dataB (this_chunkSize self) fnB ctB nowB d1"
  shows "fst (getModelFromCache self2 mid now gf) =
           Fulfilled (if fst (isModelCached self2 mid False) = Fulfilled True
                      then Some dataB else None)
    \<and> chunks_of mid d2 =
           (if fst (isModelCached self2 mid False) = Fulfilled True
            then model_chunks mid dataB (this_chunkSize self) else [])
    \<and> (\<forall>chunk\<in>set (modelChunks d2). chunkRange mid (chunk_key chunk) \<longrightarrow>
           chunk \<in> set (model_chunks mid dataB (this_chunkSize self)))
    \<and> (\<forall>chunk\<in>set (model_chunks mid dataA (this_chunkSize self)).
           chunk \<in> set (modelChunks d2) \<longrightarrow>
           chunk \<in> set (model_chunks mid dataB (this_chunkSize self)))
    \<and> ((\<Sum>m\<leftarrow>modelMetadata dW. int (totalSize m)) \<le> int (this_maxCacheSize self)
         \<or> length (modelMetadata dW) = 1
         \<or> (\<forall>m. \<not> evict_fails pfB m) \<and> length dataB \<le> this_maxCacheSize self
            \<and> (\<forall>m\<in>set (modelMetadata dW). modelId m \<noteq> mid \<longrightarrow> lastAccessed m < nowB)
        \<longrightarrow> fst (isModelCached self2 mid False) = Fulfilled True
          \<and> fst (getModelFromCache self2 mid now gf) = Fulfilled (Some dataB)
          \<and> chunks_of mid d2 = model_chunks mid dataB (this_chunkSize self))"
proof -
  note rec = overwrite_records [OF assms(1,2,3,4,5,6,7), of now]
  obtain d0 ids0 where "self1 = self\<lparr> db := Some (remove_models ids0
                  (write_model mid dataA (this_chunkSize self) fnA ctA nowA (remove_models [mid] d0))) \<rparr>"
    using cacheModel_Fulfilled [OF assms(1)] by blast
  then have cs1: "this_chunkSize self1 = this_chunkSize self"
    and mx1: "this_maxCacheSize self1 = this_maxCacheSize self" by simp_all
  have dW: "dW = write_model mid dataB (this_chunkSize self1) fnB ctB nowB d1"
    by (simp add: assms(10) cs1)
  have "fst (isModelCached self2 mid False) = Fulfilled True"
    if "(\<Sum>m\<leftarrow>modelMetadata dW. int (totalSize m)) \<le> int (this_maxCacheSize self)
         \<or> length (modelMetadata dW) = 1
         \<or> (\<forall>m. \<not> evict_fails pfB m) \<and> length dataB \<le> this_maxCacheSize self
            \<and> (\<forall>m\<in>set (modelMetadata dW). modelId m \<noteq> mid \<longrightarrow> lastAccessed m < nowB)"
    using that by (intro put_keeps_model [OF assms(2,8,9) dW]) (simp only: mx1)
  then show ?thesis using rec by simp
qed

theorem overwrite_leaves_only_second_witness:
  "fst (cacheModel demo_cache ''A'' [1, 2, 3] None None 5 no_put_faults) = Fulfilled ()
   \<and> fst (cacheModel demo_cache_A ''A'' [9] None None 6 no_put_faults) = Fulfilled ()
   \<and> getDb demo_cache_A = Inr (the (db demo_cache_A))
   \<and> length (modelMetadata (write_model ''A'' [9] (this_chunkSize demo_cache) None None 6
          (remove_models [''A''] (the (db demo_cache_A))))) = 1
   \<and> fst (getModelFromCache (snd (cacheModel demo_cache_A ''A'' [9] None None 6 no_put_faults))
           ''A'' 7 no_get_faults) = Fulfilled (Some [9])
   \<and> modelChunks (the (db (snd (cacheModel demo_cache_A ''A'' [9] None None 6 no_put_faults))))
       = [\<lparr> chunk_modelId = ''A'', chunkIndex = 0, data = [9] \<rparr>]"
proof -
  let ?self2 = "snd (cacheModel demo_cache_A ''A'' [9] None None 6 no_put_faults)"
  let ?d = "the (db demo_cache_A)"
  have h1: "cacheModel demo_cache ''A'' [1, 2, 3] None None 5 no_put_faults = (Fulfilled (), demo_cache_A)"
    by (simp add: demo_cache_A_def eval_defs)
  have h2: "cacheModel demo_cache_A ''A'' [9] None None 6 no_put_faults = (Fulfilled (), ?self2)"
    by (simp add: demo_cache_A_def eval_defs)
  have h3: "length [9 :: 8 word] \<le> MAX_SAFE_INTEGER" by (simp add: MAX_SAFE_INTEGER_def)
  have h4: "db ?self2 = Some (the (db ?self2))" by (simp add: demo_cache_A_def eval_defs)
  have h5: "\<not> metadata_get_fails no_get_faults" and h6: "\<not> chunks_get_fails no_get_faults"
    by (simp_all add: no_get_faults_def)
  have h7: "length [1, 2, 3 :: 8 word] \<le> MAX_SAFE_INTEGER" by (simp add: MAX_SAFE_INTEGER_def)
  have h8: "getDb demo_cache_A = Inr ?d" by (simp add: demo_cache_A_def eval_defs)
  have h9: "deleteModel ''A'' False ?d = Inr (remove_models [''A''] ?d)" by (rule deleteModel_ok)
  have one: "length (modelMetadata (write_model ''A'' [9] (this_chunkSize demo_cache) None None 6
          (remove_models [''A''] ?d))) = 1"
    by (simp add: demo_cache_A_def eval_defs remove_models_def)
  have s: "modelChunks (the (db ?self2)) = [\<lparr> chunk_modelId = ''A'', chunkIndex = 0, data = [9] \<rparr>]"
    by (simp add: demo_cache_A_def eval_defs)
  have f1: "fst (cacheModel demo_cache ''A'' [1, 2, 3] None None 5 no_put_faults) = Fulfilled ()"
    and f2: "fst (cacheModel demo_cache_A ''A'' [9] None None 6 no_put_faults) = Fulfilled ()"
    by (simp_all add: demo_cache_A_def eval_defs)
  show ?thesis
    using overwrite_leaves_only_second [OF h1 h2 h3 h4 h5 h6 h7 h8 h9 refl, of 7] one s h8 f1 f2
    by simp
qed

subsection \<open>C9: failures during the eviction\<close>

text \<open>
  C9 does not hold of the code when the failure is that of the metadata scan which
  opens the eviction: with the delete and the puts of a \<^verbatim>\<open>cacheModel\<close> succeeding
  and that \<^verbatim>\<open>getAll\<close> request failing, \<^verbatim>\<open>evictModelsIfNeeded\<close> is rejected, the
  await in \<^verbatim>\<open>transaction.oncomplete\<close> throws, and the promise of the put is never
  settled although the records are committed: the put does not complete. Failing
  deletes of the sweep are contained as C9 says (lemma \<open>failing_deletes_contained\<close>).
\<close>

theorem eviction_scan_failure_leaves_put_pending:
  assumes "getDb self = Inr d" and "0 < this_chunkSize self"
    and "deleteModel mid False d = Inr d1"
  shows "cacheModel self mid modelData fn ct now
            (pf\<lparr> delete_fails := False, metadata_put_fails := False,
                 chunk_put_fails := (\<lambda>i. False), scan_fails := True \<rparr>)
         = (Pending,
            self\<lparr> db := Some (write_model mid modelData (this_chunkSize self) fn ct now d1) \<rparr>)"
proof -
  have "\<not> list_ex (\<lambda>i. False) xs" for xs :: "nat list"
    by (simp add: list_ex_iff)
  then show ?thesis
    using assms by (simp add: cacheModel_def evictModelsIfNeeded_def)
qed

theorem eviction_scan_failure_leaves_put_pending_witness:
  "getDb demo_cache = Inr \<lparr> modelMetadata = [], modelChunks = [] \<rparr>
   \<and> 0 < this_chunkSize demo_cache
   \<and> fst (cacheModel demo_cache ''A'' [1, 2, 3] None None 5 eviction_scan_fails) = Pending
   \<and> fst (isModelCached (snd (cacheModel demo_cache ''A'' [1, 2, 3] None None 5 eviction_scan_fails))
          ''A'' False) = Fulfilled True"
proof -
  let ?d = "\<lparr> modelMetadata = [], modelChunks = [] \<rparr>"
  have h1: "getDb demo_cache = Inr ?d" by (simp add: demo_cache_def getDb_new_Opens)
  have h2: "0 < this_chunkSize demo_cache" by (simp add: demo_cache_def ModelCache_new_def)
  have h3: "deleteModel ''A'' False ?d = Inr (remove_models [''A''] ?d)" by (rule deleteModel_ok)
  have pf: "eviction_scan_fails\<lparr> delete_fails := False, metadata_put_fails := False,
                 chunk_put_fails := (\<lambda>i. False), scan_fails := True \<rparr> = eviction_scan_fails"
    by (simp add: eviction_scan_fails_def no_put_faults_def)
  have c: "fst (isModelCached (snd (cacheModel demo_cache ''A'' [1, 2, 3] None None 5 eviction_scan_fails))
          ''A'' False) = Fulfilled True"
    by (simp add: eviction_scan_fails_def eval_defs)
  have "fst (cacheModel demo_cache ''A'' [1, 2, 3] None None 5 eviction_scan_fails) = Pending"
    using eviction_scan_failure_leaves_put_pending [OF h1 h2 h3, where pf = eviction_scan_fails
        and modelData = "[1, 2, 3]" and fn = None and ct = None and now = 5]
    by (simp only: pf fst_conv)
  then show ?thesis using h1 h2 c by simp
qed

subsection \<open>C10: the constructor's defaults\<close>

text \<open>
  C10: a falsy \<^verbatim>\<open>chunkSizeInBytes\<close> or \<^verbatim>\<open>maxCacheSizeInBytes\<close> (undefined, or an
  explicit 0) is replaced by the default, 16 MiB and 512 MiB; a truthy argument is
  stored as given; the stored chunk size is never zero; and no method changes either
  field of the instance.
\<close>

theorem constructor_config:
  "this_chunkSize (ModelCache_new cs mcs env) =
      (if cs = None \<or> cs = Some 0 then 16 * 1024 * 1024 else the cs)
   \<and> this_maxCacheSize (ModelCache_new cs mcs env) =
      (if mcs = None \<or> mcs = Some 0 then 512 * 1024 * 1024 else the mcs)
   \<and> 0 < this_chunkSize (ModelCache_new cs mcs env)
   \<and> this_chunkSize (snd (cacheModel self mid modelData fn ct now pf)) = this_chunkSize self
   \<and> this_maxCacheSize (snd (cacheModel self mid modelData fn ct now pf)) = this_maxCacheSize self
   \<and> this_chunkSize (snd (getModelFromCache self mid now gf)) = this_chunkSize self
   \<and> this_maxCacheSize (snd (getModelFromCache self mid now gf)) = this_maxCacheSize self
   \<and> snd (isModelCached self mid fails) = self
   \<and> this_chunkSize (snd (clearCache self fails)) = this_chunkSize self
   \<and> this_maxCacheSize (snd (clearCache self fails)) = this_maxCacheSize self"
  apply (intro conjI)
  subgoal by (cases cs) (auto simp: ModelCache_new_def DEFAULT_CHUNK_SIZE_BYTES_def)
  subgoal by (cases mcs) (auto simp: ModelCache_new_def DEFAULT_MAX_CACHE_SIZE_BYTES_def)
  subgoal by (cases cs) (auto simp: ModelCache_new_def DEFAULT_CHUNK_SIZE_BYTES_def)
  subgoal by (simp add: cacheModel_def Let_def split: sum.splits)
  subgoal by (simp add: cacheModel_def Let_def split: sum.splits)
  subgoal by (simp add: getModelFromCache_def Let_def split: sum.splits option.splits)
  subgoal by (simp add: getModelFromCache_def Let_def split: sum.splits option.splits)
  subgoal by (simp add: isModelCached_def split: sum.splits)
  subgoal by (simp add: clearCache_def split: sum.splits)
  subgoal by (simp add: clearCache_def split: sum.splits)
  done

end
